theory Spec2Isabelle
  imports Complex_Main "HOL-Library.AList"
begin

section \<open>Python values\<close>

text \<open>
  A Python \<open>str\<close> is a sequence of Unicode code points, so it is modelled as a list of
  code points: \<open>text[:5000]\<close> and \<open>len\<close> count code points, and the Chinese literals of
  the source are written out as their code points.
\<close>

type_synonym ustr = "nat list"

definition ascii :: "string \<Rightarrow> ustr" where
  "ascii s = map of_char s"

text \<open>
  \<open>str.isspace\<close> for one code point: the characters \<open>str.strip()\<close> removes
  (U+0009..U+000D, U+001C..U+0020, U+0085, U+00A0, U+1680, U+2000..U+200A, U+2028, U+2029,
  U+202F, U+205F, U+3000).
\<close>

definition isspace :: "nat \<Rightarrow> bool" where
  "isspace c \<longleftrightarrow>
     (9 \<le> c \<and> c \<le> 13) \<or> (28 \<le> c \<and> c \<le> 32) \<or> c = 133 \<or> c = 160 \<or> c = 5760 \<or>
     (8192 \<le> c \<and> c \<le> 8202) \<or> c = 8232 \<or> c = 8233 \<or> c = 8239 \<or> c = 8287 \<or> c = 12288"

definition strip :: "ustr \<Rightarrow> ustr" where
  "strip s = rev (dropWhile isspace (rev (dropWhile isspace s)))"

text \<open>
  \<open>str.lower\<close> on the ASCII letters. Other code points are left as they are: no code point
  outside ASCII lower-cases to one of the letters of \<open>title\<close>, so the comparison with
  \<open>"title"\<close> in the header scan is decided as Python decides it.
\<close>

definition lower :: "ustr \<Rightarrow> ustr" where
  "lower s = map (\<lambda>c. if 65 \<le> c \<and> c \<le> 90 then c + 32 else c) s"

fun digits :: "nat \<Rightarrow> ustr" where
  "digits n = (if n < 10 then [48 + n] else digits (n div 10) @ [48 + n mod 10])"

declare digits.simps [simp del]

definition str_int :: "int \<Rightarrow> ustr" where
  "str_int i = (if i < 0 then 45 # digits (nat (- i)) else digits (nat i))"

text \<open>The exceptions of the program, each with what \<open>str(e)\<close> needs.\<close>

datatype exn =
    ValueError ustr
  | TypeError
  | IndexError
  | KeyError
  | JSONDecodeError
  | ZeroDivisionError
  | Raised ustr  \<comment> \<open>raised by an external call (requests, openpyxl), with its message\<close>

text \<open>
  \<open>str(e)\<close>. Only \<open>ValueError\<close> and the exceptions of external calls reach the handler
  of the worker; the interpreter's wording for the others is not modelled.
\<close>

fun str_exn :: "exn \<Rightarrow> ustr" where
  "str_exn (ValueError m) = m"
| "str_exn (Raised m) = m"
| "str_exn TypeError = ascii ''TypeError''"
| "str_exn IndexError = ascii ''IndexError''"
| "str_exn KeyError = ascii ''KeyError''"
| "str_exn JSONDecodeError = ascii ''JSONDecodeError''"
| "str_exn ZeroDivisionError = ascii ''division by zero''"

section \<open>The response of the translation endpoint\<close>

text \<open>What \<open>r.json()\<close> returns: Python's decoding of a JSON document.\<close>

datatype json =
    JNull
  | JBool bool
  | JInt int
  | JFloat real
  | JStr ustr
  | JArr "json list"
  | JObj "(ustr \<times> json) list"

fun truthy_json :: "json \<Rightarrow> bool" where
  "truthy_json JNull = False"
| "truthy_json (JBool b) = b"
| "truthy_json (JInt i) = (i \<noteq> 0)"
| "truthy_json (JFloat x) = (x \<noteq> 0)"
| "truthy_json (JStr s) = (s \<noteq> [])"
| "truthy_json (JArr xs) = (xs \<noteq> [])"
| "truthy_json (JObj kvs) = (kvs \<noteq> [])"

text \<open>\<open>x[0]\<close>: the keys of a decoded JSON object are strings, so \<open>0\<close> is never one.\<close>

fun index0 :: "json \<Rightarrow> exn + json" where
  "index0 (JArr []) = Inl IndexError"
| "index0 (JArr (x # xs)) = Inr x"
| "index0 (JStr []) = Inl IndexError"
| "index0 (JStr (c # cs)) = Inr (JStr [c])"
| "index0 (JObj kvs) = Inl KeyError"
| "index0 JNull = Inl TypeError"
| "index0 (JBool b) = Inl TypeError"
| "index0 (JInt i) = Inl TypeError"
| "index0 (JFloat x) = Inl TypeError"

text \<open>\<open>for seg in x\<close>: the elements of a list, the characters of a string, the keys of a dict.\<close>

fun iterate :: "json \<Rightarrow> exn + json list" where
  "iterate (JArr xs) = Inr xs"
| "iterate (JStr s) = Inr (map (\<lambda>c. JStr [c]) s)"
| "iterate (JObj kvs) = Inr (map (\<lambda>kv. JStr (fst kv)) kvs)"
| "iterate JNull = Inl TypeError"
| "iterate (JBool b) = Inl TypeError"
| "iterate (JInt i) = Inl TypeError"
| "iterate (JFloat x) = Inl TypeError"

text \<open>
  \<open>"".join(seg[0] for seg in segs)\<close>: \<open>join\<close> first runs the generator to its end (the first
  \<open>seg[0]\<close> that raises ends it), then refuses an item that is not a \<open>str\<close>.
\<close>

fun first_fields :: "json list \<Rightarrow> exn + json list" where
  "first_fields [] = Inr []"
| "first_fields (seg # segs) =
     (case index0 seg of
        Inl e \<Rightarrow> Inl e
      | Inr x \<Rightarrow> (case first_fields segs of Inl e \<Rightarrow> Inl e | Inr xs \<Rightarrow> Inr (x # xs)))"

fun join_str :: "json list \<Rightarrow> exn + ustr" where
  "join_str [] = Inr []"
| "join_str (JStr s # xs) = (case join_str xs of Inl e \<Rightarrow> Inl e | Inr r \<Rightarrow> Inr (s @ r))"
| "join_str (x # xs) = Inl TypeError"

text \<open>
  What \<open>requests.get\<close> does: it raises (no connection, timeout), or it returns a response
  with a status code and a body; the body is \<open>None\<close> when \<open>r.json()\<close> raises.
\<close>

datatype http_result =
    Transport_error ustr
  | Response int "json option"

text \<open>The sentinel \<open>"\<dots>"\<close> of the source: U+7FFB U+8BD1 U+5931 U+8D25 (translation failed).\<close>

definition FAILED :: ustr where
  "FAILED = [32763, 35793, 22833, 36133]"

text \<open>
  One pass through the body of the \<open>try\<close> (lines 23 to 26), up to the \<open>sleep\<close>: it returns a
  string, falls through on a status other than 200, or raises.
\<close>

datatype attempt_result = Returned ustr | Not_ok

definition attempt_body :: "http_result \<Rightarrow> exn + attempt_result" where
  "attempt_body r =
     (case r of
        Transport_error m \<Rightarrow> Inl (Raised m)
      | Response status_code body \<Rightarrow>
          if status_code = 200 then
            (case body of
               None \<Rightarrow> Inl JSONDecodeError
             | Some data \<Rightarrow>
                 if truthy_json data then
                   (case index0 data of
                      Inl e \<Rightarrow> Inl e
                    | Inr d0 \<Rightarrow>
                        if truthy_json d0 then
                          (case iterate d0 of
                             Inl e \<Rightarrow> Inl e
                           | Inr segs \<Rightarrow>
                               (case first_fields segs of
                                  Inl e \<Rightarrow> Inl e
                                | Inr xs \<Rightarrow>
                                    (case join_str xs of
                                       Inl e \<Rightarrow> Inl e
                                     | Inr s \<Rightarrow> Inr (Returned s))))
                        else Inr (Returned FAILED))
                 else Inr (Returned FAILED))
          else Inr Not_ok)"

section \<open>The task registry\<close>

text \<open>
  A task record is a Python dict from field names to values, and \<open>TASKS\<close> a dict from task
  ids to records: association lists, so that an empty record and an absent one differ as
  they do in Python. Field names and task ids are ASCII.
\<close>

datatype val = VStr ustr | VInt int | VFloat real | VBool bool

fun truthy :: "val \<Rightarrow> bool" where
  "truthy (VStr s) = (s \<noteq> [])"
| "truthy (VInt i) = (i \<noteq> 0)"
| "truthy (VFloat x) = (x \<noteq> 0)"
| "truthy (VBool b) = b"

type_synonym task = "(string \<times> val) list"

type_synonym registry = "(string \<times> task) list"

text \<open>\<open>st.update(kv)\<close>: the items of \<open>kv\<close> are stored one after the other.\<close>

definition dict_update :: "task \<Rightarrow> task \<Rightarrow> task" where
  "dict_update st kv = fold (\<lambda>(k, v). AList.update k v) kv st"

text \<open>
  \<open>_safe_update\<close>: \<open>if st\<close> is Python's truth test, which an absent record (\<open>None\<close>) and an
  empty one both fail.
\<close>

definition safe_update :: "string \<Rightarrow> task \<Rightarrow> registry \<Rightarrow> registry" where
  "safe_update task_id kv tasks =
     (case map_of tasks task_id of
        None \<Rightarrow> tasks
      | Some st \<Rightarrow> if st \<noteq> [] then AList.update task_id (dict_update st kv) tasks else tasks)"

text \<open>\<open>_get_state\<close>: a copy of the record, or the empty dict.\<close>

definition get_state :: "string \<Rightarrow> registry \<Rightarrow> task" where
  "get_state task_id tasks = (case map_of tasks task_id of None \<Rightarrow> [] | Some st \<Rightarrow> st)"

section \<open>Effects\<close>

text \<open>
  What the program does to the world, in the order it does it. The length of the trace is
  the program's logical time.
\<close>

datatype event =
    Http_get ustr  \<comment> \<open>\<open>requests.get\<close> with the query text\<close>
  | Sleep real  \<comment> \<open>\<open>time.sleep\<close>, in seconds\<close>
  | Print_error exn
  | Load_workbook ustr
  | Insert_cols nat
  | Cell_write nat nat ustr  \<comment> \<open>\<open>ws.cell(row, column, value)\<close>\<close>
  | Save ustr  \<comment> \<open>\<open>wb.save(path)\<close>\<close>
  | Rmtree ustr
  | Start_cleanup string  \<comment> \<open>the eviction thread of \<open>_schedule_state_cleanup\<close>\<close>
  | Registry_create string task  \<comment> \<open>\<open>TASKS[task_id] = {...}\<close>\<close>
  | Registry_get string  \<comment> \<open>\<open>_get_state\<close>\<close>
  | Registry_update string task  \<comment> \<open>\<open>_safe_update\<close>\<close>

text \<open>
  What the world answers, as a function of the logical time of the call: the endpoint's
  response to a request, whether \<open>wb.save\<close> raises, whether the input directory still
  exists, the wall clock, and the moment at which an external cancel request sets
  \<open>cancel_requested\<close> (none if \<open>None\<close>).
\<close>

record env =
  endpoint :: "nat \<Rightarrow> ustr \<Rightarrow> http_result"
  save_raises :: "nat \<Rightarrow> exn option"
  isdir :: "nat \<Rightarrow> bool"
  clock :: "nat \<Rightarrow> real"
  cancel_at :: "nat option"

section \<open>The translation client\<close>

text \<open>
  The loop \<open>for attempt in range(1, 4)\<close> of \<open>translate_text\<close>, on the attempts still to run.
  The handler catches every \<open>Exception\<close> of the body.
\<close>

fun translate_text_loop ::
  "env \<Rightarrow> ustr \<Rightarrow> nat list \<Rightarrow> event list \<Rightarrow> (exn + ustr) \<times> event list" where
  "translate_text_loop e q [] tr = (Inr FAILED, tr)"
| "translate_text_loop e q (attempt # rest) tr =
     (case attempt_body (endpoint e (length tr) q) of
        Inr (Returned s) \<Rightarrow> (Inr s, tr @ [Http_get q])
      | Inr Not_ok \<Rightarrow>
          translate_text_loop e q rest (tr @ [Http_get q, Sleep (2 ^ attempt + 0.5)])
      | Inl x \<Rightarrow>
          if attempt = 3 then (Inr FAILED, tr @ [Http_get q, Print_error x])
          else translate_text_loop e q rest (tr @ [Http_get q, Sleep (2 ^ attempt + 0.5)]))"

definition translate_text :: "env \<Rightarrow> ustr \<Rightarrow> event list \<Rightarrow> (exn + ustr) \<times> event list" where
  "translate_text e text tr =
     (if text = [] \<or> strip text = [] then (Inr [], tr)
      else translate_text_loop e (take 5000 text) [1..<4] tr)"

text \<open>A failed attempt, as the spec counts it: a transport failure or a status other than 200.\<close>

fun attempt_fails :: "http_result \<Rightarrow> bool" where
  "attempt_fails (Transport_error m) = True"
| "attempt_fails (Response status_code body) = (status_code \<noteq> 200)"

fun is_http_get :: "event \<Rightarrow> bool" where
  "is_http_get (Http_get q) = True"
| "is_http_get ev = False"

section \<open>Paths\<close>

text \<open>\<open>os.path.basename\<close>, \<open>dirname\<close>, \<open>splitext(p)[0]\<close> and \<open>join\<close> of \<open>posixpath\<close>; 47 is \<open>/\<close>, 46 is \<open>.\<close>.\<close>

definition basename :: "ustr \<Rightarrow> ustr" where
  "basename p = rev (takeWhile (\<lambda>c. c \<noteq> 47) (rev p))"

definition dirname :: "ustr \<Rightarrow> ustr" where
  "dirname p =
     (let head = rev (dropWhile (\<lambda>c. c \<noteq> 47) (rev p))
      in if head \<noteq> [] \<and> \<not> list_all (\<lambda>c. c = 47) head
         then rev (dropWhile (\<lambda>c. c = 47) (rev head)) else head)"

definition splitext_root :: "ustr \<Rightarrow> ustr" where
  "splitext_root p =
     (let ext = rev (takeWhile (\<lambda>c. c \<noteq> 46) (rev p));
          upto_dot = rev (dropWhile (\<lambda>c. c \<noteq> 46) (rev p))
      in if upto_dot = [] \<or> 47 \<in> set ext then p
         else if list_all (\<lambda>c. c = 46) (basename (butlast upto_dot)) then p
         else butlast upto_dot)"

definition path_join :: "ustr \<Rightarrow> ustr \<Rightarrow> ustr" where
  "path_join a b =
     (if b \<noteq> [] \<and> hd b = 47 then b
      else if a = [] \<or> last a = 47 then a @ b
      else a @ [47] @ b)"

section \<open>The worksheet\<close>

text \<open>
  The value of a cell: \<open>None\<close> for an empty cell, a string, an integer, a boolean, or any
  other value (a float, a date) given by what \<open>str\<close> makes of it.
\<close>

datatype cell_value = CNone | CStr ustr | CInt int | CBool bool | COther ustr

fun str_value :: "cell_value \<Rightarrow> ustr" where
  "str_value CNone = ascii ''None''"
| "str_value (CStr s) = s"
| "str_value (CInt i) = str_int i"
| "str_value (CBool b) = (if b then ascii ''True'' else ascii ''False'')"
| "str_value (COther s) = s"

text \<open>
  The active sheet as the worker sees it: the value of every cell (a cell that was never
  written reads \<open>None\<close>) and the sheet's extent. Rows and columns count from 1.
\<close>

record worksheet =
  cells :: "nat \<Rightarrow> nat \<Rightarrow> cell_value"
  max_row :: nat
  max_column :: nat

text \<open>\<open>enumerate(ws[1], 1)\<close>: the cells of row 1, each with its column.\<close>

definition header :: "worksheet \<Rightarrow> (nat \<times> cell_value) list" where
  "header w = map (\<lambda>idx. (idx, cells w 1 idx)) [1..<Suc (max_column w)]"

text \<open>\<open>ws.insert_cols(idx)\<close>: the cells from column \<open>idx\<close> on move one column to the right.\<close>

definition insert_cols :: "nat \<Rightarrow> worksheet \<Rightarrow> worksheet" where
  "insert_cols idx w =
     w\<lparr>cells := (\<lambda>r c. if c < idx then cells w r c else if c = idx then CNone
                       else cells w r (c - 1)),
       max_column := (if idx \<le> max_column w then Suc (max_column w) else max_column w)\<rparr>"

text \<open>\<open>ws.cell(row, column, value=v)\<close>.\<close>

definition set_cell :: "nat \<Rightarrow> nat \<Rightarrow> cell_value \<Rightarrow> worksheet \<Rightarrow> worksheet" where
  "set_cell r c v w =
     w\<lparr>cells := (cells w)(r := (cells w r)(c := v)),
       max_row := max (max_row w) r, max_column := max (max_column w) c\<rparr>"

text \<open>The header scan of step 1: the first column of row 1 whose text is \<open>title\<close>.\<close>

fun find_title :: "(nat \<times> cell_value) list \<Rightarrow> nat option" where
  "find_title [] = None"
| "find_title ((idx, v) # rest) =
     (if lower (strip (str_value v)) = ascii ''title'' then Some idx else find_title rest)"

text \<open>The list comprehension of step 3.\<close>

definition rows_to_tr :: "worksheet \<Rightarrow> nat \<Rightarrow> nat list" where
  "rows_to_tr w title_col_idx =
     filter (\<lambda>r. strip (str_value (cells w r title_col_idx)) \<noteq> []) [2..<Suc (max_row w)]"

section \<open>The constants of the worker\<close>

definition BATCH :: nat where
  "BATCH = 10"

definition IDLE :: val where "IDLE = VStr (ascii ''idle'')"
definition RUNNING :: val where "RUNNING = VStr (ascii ''running'')"
definition DONE :: val where "DONE = VStr (ascii ''done'')"
definition ERROR :: val where "ERROR = VStr (ascii ''error'')"
definition CANCELED :: val where "CANCELED = VStr (ascii ''canceled'')"

text \<open>The Chinese literals, by code point, in the order of the source.\<close>

definition MSG_READING :: ustr where
  "MSG_READING = [35835, 21462, 25991, 20214, 46, 46, 46]"

definition MSG_EMPTY_SHEET :: ustr where
  "MSG_EMPTY_SHEET = [31354, 24037, 20316, 34920]"

definition MSG_NO_TITLE :: ustr where
  "MSG_NO_TITLE = [25214, 19981, 21040, 32, 84, 105, 116, 108, 101, 32, 21015]"

definition ZH :: ustr where
  "ZH = [20013, 25991]"

definition MSG_NOTHING :: ustr where
  "MSG_NOTHING = [26080, 38656, 32763, 35793]"

definition SUFFIX :: ustr where
  "SUFFIX = [95, 20013, 25991, 32763, 35793, 46, 120, 108, 115, 120]"

definition MSG_CANCELED :: ustr where
  "MSG_CANCELED = [24050, 21462, 28040]"

definition msg_progress :: "nat \<Rightarrow> nat \<Rightarrow> ustr" where
  "msg_progress done_total total' =
     [32763, 35793, 20013, 40] @ digits done_total @ [47] @ digits total' @ [41]"

definition msg_finished :: "nat \<Rightarrow> ustr" where
  "msg_finished total' =
     [32763, 35793, 23436, 25104, 65292, 20849, 22788, 29702, 32] @ digits total' @ [32, 34892]"

section \<open>The worker\<close>

text \<open>
  The state the worker runs in: the registry \<open>TASKS\<close>, the trace of what was done so far,
  and (for stating properties of every state the registry goes through) the registry as it
  was after each write.
\<close>

record world =
  tasks :: registry
  trace :: "event list"
  snapshots :: "registry list"

text \<open>
  Modelled from the spec: the external cancel request. The source has no route that sets
  \<open>cancel_requested\<close>; the spec says cancellation is "signaled by setting
  \<open>cancel_requested\<close> on the task record".
\<close>

definition request_cancel :: "string \<Rightarrow> registry \<Rightarrow> registry" where
  "request_cancel task_id ts = safe_update task_id [(''cancel_requested'', VBool True)] ts"

definition cancel_due :: "env \<Rightarrow> world \<Rightarrow> bool" where
  "cancel_due e s = (case cancel_at e of None \<Rightarrow> False | Some k \<Rightarrow> k \<le> length (trace s))"

text \<open>
  The registry as it stands when the worker looks at it: with the cancel request applied
  once its moment has come.
\<close>

definition visible :: "env \<Rightarrow> string \<Rightarrow> world \<Rightarrow> registry" where
  "visible e task_id s = (if cancel_due e s then request_cancel task_id (tasks s) else tasks s)"

text \<open>The worker's calls of \<open>_safe_update\<close> and \<open>_get_state\<close>.\<close>

definition update_task :: "env \<Rightarrow> string \<Rightarrow> task \<Rightarrow> world \<Rightarrow> world" where
  "update_task e task_id kv s =
     (let ts = safe_update task_id kv (visible e task_id s)
      in s\<lparr>tasks := ts, trace := trace s @ [Registry_update task_id kv],
           snapshots := snapshots s @ [ts]\<rparr>)"

definition read_task :: "env \<Rightarrow> string \<Rightarrow> world \<Rightarrow> task \<times> world" where
  "read_task e task_id s =
     (get_state task_id (visible e task_id s), s\<lparr>trace := trace s @ [Registry_get task_id]\<rparr>)"

text \<open>\<open>d.get(k)\<close> in a condition: a missing key gives \<open>None\<close>, which is false.\<close>

definition get_truthy :: "task \<Rightarrow> string \<Rightarrow> bool" where
  "get_truthy st k = (case map_of st k of None \<Rightarrow> False | Some v \<Rightarrow> truthy v)"

text \<open>
  \<open>int(x)\<close> of a float: truncation toward zero. Floats are taken as reals, so rounding and
  overflow of the float arithmetic are not modelled.
\<close>

definition int_of_float :: "real \<Rightarrow> int" where
  "int_of_float x = (if 0 \<le> x then \<lfloor>x\<rfloor> else \<lceil>x\<rceil>)"

text \<open>
  The inner loop (lines 97 to 111) over \<open>enumerate(batch_rows, 1)\<close>. The loop ends with
  \<open>Some x\<close> when an exception \<open>x\<close> leaves it: one of \<open>translate_text\<close>, or the division by a
  \<open>total\<close> of zero in line 105. The calls of openpyxl on cells are taken not to raise.
\<close>

fun for_rows ::
  "env \<Rightarrow> string \<Rightarrow> nat \<Rightarrow> nat \<Rightarrow> nat \<Rightarrow> real \<Rightarrow> nat \<Rightarrow> (nat \<times> nat) list \<Rightarrow>
     worksheet \<Rightarrow> world \<Rightarrow> exn option \<times> worksheet \<times> world" where
  "for_rows e task_id title_col_idx insert_idx total' start batch_start [] w s = (None, w, s)"
| "for_rows e task_id title_col_idx insert_idx total' start batch_start
     ((done_in_batch, row) # rest) w s =
     (let title_cell = cells w row title_col_idx in
      case translate_text e (str_value title_cell) (trace s) of
        (Inl x, tr) \<Rightarrow> (Some x, w, s\<lparr>trace := tr\<rparr>)
      | (Inr translated, tr) \<Rightarrow>
          (let w1 = set_cell row insert_idx (CStr translated) w;
               s1 = s\<lparr>trace := tr @ [Cell_write row insert_idx translated]\<rparr>;
               done_total = batch_start + done_in_batch;
               elapsed = max (clock e (length (trace s1)) - start) (1 / 1000000);
               eta = (if done_total \<noteq> 0
                      then int_of_float (real_of_int (int total' - int done_total) /
                             (real done_total / elapsed))
                      else 0)
           in if total' = 0 then (Some ZeroDivisionError, w1, s1)
              else
                (let percent = int_of_float (real (done_total * 100) / real total');
                     s2 = update_task e task_id
                            [(''current'', VInt (int done_total)),
                             (''percent'', VInt percent),
                             (''eta_seconds'', VInt eta),
                             (''message'', VStr (msg_progress done_total total'))] s1
                 in for_rows e task_id title_col_idx insert_idx total' start batch_start
                      rest w1 s2)))"

text \<open>How a loop ends: it runs to its end, or a \<open>return\<close> leaves the function.\<close>

datatype flow = Fallthrough | Return

text \<open>\<open>range(0, stop, step)\<close>.\<close>

definition range_step :: "nat \<Rightarrow> nat \<Rightarrow> nat list" where
  "range_step stop step = map (\<lambda>i. i * step) [0..<(stop + step - 1) div step]"

text \<open>The outer loop (lines 91 to 115), on the batch starts still to run.\<close>

fun for_batches ::
  "env \<Rightarrow> string \<Rightarrow> nat \<Rightarrow> nat \<Rightarrow> nat list \<Rightarrow> nat \<Rightarrow> real \<Rightarrow> ustr \<Rightarrow> nat list \<Rightarrow>
     worksheet \<Rightarrow> world \<Rightarrow> (exn + flow) \<times> worksheet \<times> world" where
  "for_batches e task_id title_col_idx insert_idx rows total' start output_path [] w s =
     (Inr Fallthrough, w, s)"
| "for_batches e task_id title_col_idx insert_idx rows total' start output_path
     (batch_start # rest) w s =
     (case read_task e task_id s of
        (st, s1) \<Rightarrow>
          if get_truthy st ''cancel_requested'' then
            (Inr Return, w,
             update_task e task_id
               [(''status'', CANCELED), (''message'', VStr MSG_CANCELED)] s1)
          else
            (let batch_rows = take BATCH (drop batch_start rows) in
             case for_rows e task_id title_col_idx insert_idx total' start batch_start
                    (enumerate 1 batch_rows) w s1 of
               (Some x, w2, s2) \<Rightarrow> (Inl x, w2, s2)
             | (None, w2, s2) \<Rightarrow>
                 (case save_raises e (length (trace s2)) of
                    Some x \<Rightarrow> (Inl x, w2, s2\<lparr>trace := trace s2 @ [Save output_path]\<rparr>)
                  | None \<Rightarrow>
                      for_batches e task_id title_col_idx insert_idx rows total' start
                        output_path rest w2
                        (s2\<lparr>trace := trace s2 @ [Save output_path, Sleep 2]\<rparr>))))"

text \<open>
  The body of the \<open>try\<close> (lines 57 to 124). \<open>loaded\<close> is what \<open>load_workbook(file_path)\<close>
  and \<open>wb.active\<close> give: an exception, no active sheet, or the sheet.
\<close>

definition try_block ::
  "env \<Rightarrow> ustr \<Rightarrow> string \<Rightarrow> exn + worksheet option \<Rightarrow> world \<Rightarrow> (exn + flow) \<times> world" where
  "try_block e file_path task_id loaded s0 =
     (let s = s0\<lparr>trace := trace s0 @ [Load_workbook file_path]\<rparr> in
      case loaded of
        Inl x \<Rightarrow> (Inl x, s)
      | Inr None \<Rightarrow> (Inl (ValueError MSG_EMPTY_SHEET), s)
      | Inr (Some w0) \<Rightarrow>
          (case find_title (header w0) of
             None \<Rightarrow> (Inl (ValueError MSG_NO_TITLE), s)
           | Some title_col_idx \<Rightarrow>
               if title_col_idx = 0 then (Inl (ValueError MSG_NO_TITLE), s)
               else
                 (let insert_idx = title_col_idx + 1;
                      (w1, s1) =
                        (if cells w0 1 insert_idx \<noteq> CStr ZH
                         then (set_cell 1 insert_idx (CStr ZH) (insert_cols insert_idx w0),
                               s\<lparr>trace := trace s @ [Insert_cols insert_idx,
                                   Cell_write 1 insert_idx ZH]\<rparr>)
                         else (w0, s));
                      rows = rows_to_tr w1 title_col_idx;
                      total' = length rows;
                      s2 = update_task e task_id
                             [(''total'', VInt (int total')), (''current'', VInt 0)] s1
                  in if total' = 0 then
                       (Inr Return,
                        update_task e task_id
                          [(''status'', DONE), (''percent'', VInt 100),
                           (''message'', VStr MSG_NOTHING)] s2)
                     else
                       (let start = clock e (length (trace s2));
                            output_path =
                              path_join (ascii ''/tmp'')
                                (splitext_root (basename file_path) @ SUFFIX)
                        in case for_batches e task_id title_col_idx insert_idx rows total'
                                  start output_path (range_step total' BATCH) w1 s2 of
                             (Inl x, w3, s3) \<Rightarrow> (Inl x, s3)
                           | (Inr Return, w3, s3) \<Rightarrow> (Inr Return, s3)
                           | (Inr Fallthrough, w3, s3) \<Rightarrow>
                               (Inr Fallthrough,
                                update_task e task_id
                                  [(''status'', DONE), (''percent'', VInt 100),
                                   (''eta_seconds'', VInt 0),
                                   (''message'', VStr (msg_finished total')),
                                   (''download_filename'', VStr (basename output_path)),
                                   (''finished_at'', VFloat (clock e (length (trace s3))))]
                                  s3)))))"

text \<open>The \<open>finally\<close> block (lines 128 to 134).\<close>

definition finally_block :: "env \<Rightarrow> ustr \<Rightarrow> string \<Rightarrow> world \<Rightarrow> world" where
  "finally_block e file_path task_id s =
     (let base = dirname file_path;
          s1 = (if isdir e (length (trace s)) then s\<lparr>trace := trace s @ [Rmtree base]\<rparr> else s)
      in s1\<lparr>trace := trace s1 @ [Start_cleanup task_id]\<rparr>)"

text \<open>\<open>_run_task\<close>: the handler turns every exception of the body into the error status.\<close>

definition run_task :: "env \<Rightarrow> ustr \<Rightarrow> string \<Rightarrow> exn + worksheet option \<Rightarrow> world \<Rightarrow> world" where
  "run_task e file_path task_id loaded s =
     (let s1 = update_task e task_id
                 [(''status'', RUNNING), (''message'', VStr MSG_READING),
                  (''percent'', VInt 0), (''started_at'', VFloat (clock e (length (trace s))))] s
      in case try_block e file_path task_id loaded s1 of
           (Inl x, s2) \<Rightarrow>
             finally_block e file_path task_id
               (update_task e task_id
                  [(''status'', ERROR), (''message'', VStr (str_exn x)),
                   (''finished_at'', VFloat (clock e (length (trace s2))))] s2)
         | (Inr f, s2) \<Rightarrow> finally_block e file_path task_id s2)"

text \<open>
  \<open>start_background_task\<close>, up to the start of the worker's thread: the new record is
  stored under \<open>task_id\<close> (the 12 hexadecimal digits \<open>uuid4\<close> gave).
\<close>

definition initial_record :: "ustr \<Rightarrow> ustr \<Rightarrow> task" where
  "initial_record file_path filename =
     [(''status'', IDLE), (''percent'', VInt 0), (''total'', VInt 0), (''current'', VInt 0),
      (''cancel_requested'', VBool False), (''tmp_dir'', VStr (dirname file_path)),
      (''filename'', VStr filename)]"

definition start_background_task :: "ustr \<Rightarrow> ustr \<Rightarrow> string \<Rightarrow> world \<Rightarrow> world" where
  "start_background_task file_path filename task_id s =
     (let ts = AList.update task_id (initial_record file_path filename) (tasks s)
      in s\<lparr>tasks := ts,
           trace := trace s @ [Registry_create task_id (initial_record file_path filename)],
           snapshots := snapshots s @ [ts]\<rparr>)"

text \<open>A task from its creation to the end of its worker.\<close>

definition task_run ::
  "env \<Rightarrow> ustr \<Rightarrow> ustr \<Rightarrow> string \<Rightarrow> exn + worksheet option \<Rightarrow> world \<Rightarrow> world" where
  "task_run e file_path filename task_id loaded s =
     run_task e file_path task_id loaded (start_background_task file_path filename task_id s)"

text \<open>The records the task went through, from its creation on, one per registry write.\<close>

definition task_history :: "string \<Rightarrow> world \<Rightarrow> world \<Rightarrow> task list" where
  "task_history task_id s0 s =
     map (get_state task_id) (drop (length (snapshots s0)) (snapshots s))"

section \<open>Predicates on records and traces\<close>

text \<open>The record of a task in the registry of a world.\<close>

definition record_of :: "string \<Rightarrow> world \<Rightarrow> task" where
  "record_of task_id s = get_state task_id (tasks s)"

text \<open>
  The progress fields of a record are in range: \<open>percent\<close> from 0 to 100 and \<open>current\<close> from 0
  to \<open>total\<close>; and from a record to the next, \<open>percent\<close> and \<open>current\<close> do not decrease.
\<close>

definition progress_ok :: "task \<Rightarrow> bool" where
  "progress_ok st =
     (case (map_of st ''percent'', map_of st ''current'', map_of st ''total'') of
        (Some (VInt p), Some (VInt c), Some (VInt t)) \<Rightarrow> 0 \<le> p \<and> p \<le> 100 \<and> 0 \<le> c \<and> c \<le> t
      | _ \<Rightarrow> False)"

definition progress_le :: "task \<Rightarrow> task \<Rightarrow> bool" where
  "progress_le st st' =
     (case (map_of st ''percent'', map_of st' ''percent'',
            map_of st ''current'', map_of st' ''current'') of
        (Some (VInt p), Some (VInt p'), Some (VInt c), Some (VInt c')) \<Rightarrow> p \<le> p' \<and> c \<le> c'
      | _ \<Rightarrow> False)"

text \<open>
  A record is completed when its status is \<open>done\<close> and the task had rows to translate.
  \<open>download_filename\<close> is there exactly in a completed record, \<open>finished_at\<close> exactly in a
  completed one or one with status \<open>error\<close>.
\<close>

definition has_field :: "task \<Rightarrow> string \<Rightarrow> bool" where
  "has_field st k = (map_of st k \<noteq> None)"

definition completed :: "task \<Rightarrow> bool" where
  "completed st = (map_of st ''status'' = Some DONE \<and> map_of st ''total'' \<noteq> Some (VInt 0))"

definition download_rule :: "task \<Rightarrow> bool" where
  "download_rule st = (has_field st ''download_filename'' = completed st)"

definition finished_rule :: "task \<Rightarrow> bool" where
  "finished_rule st =
     (has_field st ''finished_at'' = (map_of st ''status'' = Some ERROR \<or> completed st))"

text \<open>The events that write the output file, and those that write a cell.\<close>

fun is_save :: "event \<Rightarrow> bool" where
  "is_save (Save p) = True"
| "is_save ev = False"

fun is_cell_write :: "event \<Rightarrow> bool" where
  "is_cell_write (Cell_write r c v) = True"
| "is_cell_write ev = False"

text \<open>How many events of a kind the trace holds from position \<open>k\<close> on.\<close>

definition count_after :: "(event \<Rightarrow> bool) \<Rightarrow> nat \<Rightarrow> event list \<Rightarrow> nat" where
  "count_after P k tr = length (filter P (drop k tr))"

section \<open>Notions of the proofs\<close>

text \<open>
  The fields of a record the invariant is about (status, percent, current, total, whether
  \<open>download_filename\<close> and \<open>finished_at\<close> are there), and how an update changes them.
\<close>

type_synonym summary = "val option \<times> val option \<times> val option \<times> val option \<times> bool \<times> bool"

definition summary :: "task \<Rightarrow> summary" where
  "summary st =
     (map_of st ''status'', map_of st ''percent'', map_of st ''current'', map_of st ''total'',
      has_field st ''download_filename'', has_field st ''finished_at'')"

definition merge_summary :: "(string \<rightharpoonup> val) \<Rightarrow> summary \<Rightarrow> summary" where
  "merge_summary m x =
     (case x of (a, p, c, t, out, fin) \<Rightarrow>
        (case m ''status'' of Some v \<Rightarrow> Some v | None \<Rightarrow> a,
         case m ''percent'' of Some v \<Rightarrow> Some v | None \<Rightarrow> p,
         case m ''current'' of Some v \<Rightarrow> Some v | None \<Rightarrow> c,
         case m ''total'' of Some v \<Rightarrow> Some v | None \<Rightarrow> t,
         out \<or> m ''download_filename'' \<noteq> None,
         fin \<or> m ''finished_at'' \<noteq> None))"

text \<open>
  The invariant of a task's history since the world \<open>s0\<close> it was created in: the registry is
  the last snapshot, the task has a record with fields, every record of the history obeys
  the three rules, and progress never goes back.
\<close>

definition rec_ok :: "task \<Rightarrow> bool" where
  "rec_ok st = (progress_ok st \<and> download_rule st \<and> finished_rule st)"

definition hist_ok :: "string \<Rightarrow> world \<Rightarrow> world \<Rightarrow> bool" where
  "hist_ok task_id s0 s =
     (length (snapshots s0) < length (snapshots s) \<and> last (snapshots s) = tasks s \<and>
      record_of task_id s \<noteq> [] \<and>
      list_all rec_ok (task_history task_id s0 s) \<and>
      successively progress_le (task_history task_id s0 s))"

text \<open>The summary of a running task after \<open>n\<close> of \<open>T\<close> rows, and of one canceled there.\<close>

definition running_sum :: "nat \<Rightarrow> nat \<Rightarrow> summary" where
  "running_sum n T =
     (Some RUNNING, Some (VInt (int ((n * 100) div T))), Some (VInt (int n)),
      Some (VInt (int T)), False, False)"

definition canceled_sum :: "nat \<Rightarrow> nat \<Rightarrow> summary" where
  "canceled_sum n T =
     (Some CANCELED, Some (VInt (int ((n * 100) div T))), Some (VInt (int n)),
      Some (VInt (int T)), False, False)"

section \<open>Concrete worlds\<close>

text \<open>
  A world whose endpoint gives the same answer to every request, where saving never fails,
  the input directory exists, the clock shows the logical time and nobody cancels.
\<close>

definition always :: "http_result \<Rightarrow> env" where
  "always r = \<lparr>endpoint = (\<lambda>t q. r), save_raises = (\<lambda>t. None), isdir = (\<lambda>t. True),
     clock = (\<lambda>t. real t), cancel_at = None\<rparr>"

text \<open>The world before any task, and a sheet that has the header \<open>Title\<close> and no data row.\<close>

definition empty_world :: world where
  "empty_world = \<lparr>tasks = [], trace = [], snapshots = []\<rparr>"

definition header_only :: worksheet where
  "header_only =
     \<lparr>cells = (\<lambda>r c. if r = 1 \<and> c = 1 then CStr (ascii ''Title'') else CNone),
      max_row = 1, max_column = 1\<rparr>"

text \<open>
  A sheet whose row 2 has an empty Title cell (and a note in column 2), and a world whose
  task \<open>t1\<close> has \<open>cancel_requested\<close> set.
\<close>

definition blank_title_row :: worksheet where
  "blank_title_row =
     \<lparr>cells = (\<lambda>r c. if r = 1 \<and> c = 1 then CStr (ascii ''Title'')
                      else if r = 1 \<and> c = 2 then CStr (ascii ''Note'')
                      else if r = 2 \<and> c = 2 then CStr (ascii ''x'')
                      else CNone),
      max_row = 2, max_column = 2\<rparr>"

definition cancel_seen :: world where
  "cancel_seen =
     \<lparr>tasks = [(''t1'', [(''status'', RUNNING), (''cancel_requested'', VBool True)])],
      trace = [], snapshots = []\<rparr>"

section \<open>Properties of the translation client\<close>

lemma range_Suc0_4: "[Suc 0..<4] = [Suc 0, 2, 3]"
  by (simp add: upt_rec)

lemma strip_Nil_iff: "strip s = [] \<longleftrightarrow> list_all isspace s"
proof -
  have "dropWhile isspace s = [] \<longleftrightarrow> list_all isspace s"
    by (simp add: dropWhile_eq_Nil_conv list_all_iff)
  moreover have "strip s = [] \<longleftrightarrow> dropWhile isspace s = []"
  proof
    assume "strip s = []"
    then have a: "\<forall>x\<in>set (dropWhile isspace s). isspace x"
      by (simp add: strip_def dropWhile_eq_Nil_conv)
    show "dropWhile isspace s = []"
    proof (rule ccontr)
      assume n: "dropWhile isspace s \<noteq> []"
      then have "\<not> isspace (hd (dropWhile isspace s))" by (rule hd_dropWhile)
      with a n show False by simp
    qed
  next
    assume "dropWhile isspace s = []"
    then show "strip s = []" unfolding strip_def by (simp del: dropWhile_eq_Nil_conv)
  qed
  ultimately show ?thesis by simp
qed

lemma translate_text_loop_Inr: "\<exists>s. fst (translate_text_loop e q as tr) = Inr s"
  by (induction as arbitrary: tr) (auto split: sum.splits attempt_result.splits)

lemma attempt_fails_body:
  "attempt_fails r \<Longrightarrow> attempt_body r = Inr Not_ok \<or> (\<exists>x. attempt_body r = Inl x)"
  by (cases r) (auto simp: attempt_body_def)

text \<open>
  When every attempt fails, the loop makes three requests, sleeps 2.5 and 4.5 seconds after
  the first two, and ends with one more event that is not a request.
\<close>

lemma loop_all_fail:
  assumes "\<forall>t. attempt_fails (endpoint e t q)"
  shows "\<exists>w. translate_text_loop e q [1..<4] tr =
           (Inr FAILED, tr @ [Http_get q, Sleep (5 / 2), Http_get q, Sleep (9 / 2), Http_get q, w])
           \<and> \<not> is_http_get w"
proof -
  have f: "\<And>t. attempt_body (endpoint e t q) = Inr Not_ok \<or> (\<exists>x. attempt_body (endpoint e t q) = Inl x)"
    using assms attempt_fails_body by blast
  show ?thesis
    using f [of "length tr"] f [of "Suc (Suc (length tr))"] f [of "Suc (Suc (Suc (Suc (length tr))))"]
    by (auto simp: range_Suc0_4 split: sum.splits attempt_result.splits)
qed

text \<open>
  C6: for every input that is empty or consists only of whitespace, \<open>translate_text\<close>
  returns the empty string at once: the trace is the one it was given, so no request was
  made (and nothing else was done).
\<close>

theorem translate_text_blank:
  assumes "list_all isspace text"
  shows "translate_text e text tr = (Inr [], tr)"
  using assms by (simp add: translate_text_def strip_Nil_iff)

theorem translate_text_blank_witness:
  "list_all isspace [32, 32, 32] \<and>
   translate_text (always (Response 200 None)) [32, 32, 32] [] = (Inr [], [])"
proof -
  have h: "list_all isspace [32, 32, 32]" by (simp add: isspace_def)
  show ?thesis using h translate_text_blank [OF h] by simp
qed

text \<open>
  C5: \<open>translate_text\<close> never raises, whatever the input and whatever the endpoint does: its
  result is always a string. When the input is not blank (so that the endpoint is asked at
  all) and the endpoint fails on every attempt, it makes exactly three requests and returns
  the sentinel.
\<close>

theorem translate_text_never_raises:
  "(\<exists>s. fst (translate_text e text tr) = Inr s) \<and>
   (\<not> list_all isspace text \<and> (\<forall>t. attempt_fails (endpoint e t (take 5000 text))) \<longrightarrow>
      fst (translate_text e text tr) = Inr FAILED \<and>
      length (filter is_http_get (drop (length tr) (snd (translate_text e text tr)))) = 3)"
proof (intro conjI impI)
  show "\<exists>s. fst (translate_text e text tr) = Inr s"
    by (simp add: translate_text_def translate_text_loop_Inr)
next
  assume a: "\<not> list_all isspace text \<and> (\<forall>t. attempt_fails (endpoint e t (take 5000 text)))"
  then have nb: "text \<noteq> []" "strip text \<noteq> []" by (auto simp: strip_Nil_iff)
  from a loop_all_fail [of e "take 5000 text" tr] obtain w where
    w: "translate_text_loop e (take 5000 text) [1..<4] tr =
           (Inr FAILED, tr @ [Http_get (take 5000 text), Sleep (5 / 2),
              Http_get (take 5000 text), Sleep (9 / 2), Http_get (take 5000 text), w])"
      "\<not> is_http_get w" by blast
  from nb w show "fst (translate_text e text tr) = Inr FAILED"
    unfolding translate_text_def by simp
  from nb w show
    "length (filter is_http_get (drop (length tr) (snd (translate_text e text tr)))) = 3"
    unfolding translate_text_def by simp
qed

theorem translate_text_never_raises_witness:
  "fst (translate_text (always (Transport_error [])) (ascii ''cat'') []) = Inr FAILED \<and>
   length (filter is_http_get
     (snd (translate_text (always (Transport_error [])) (ascii ''cat'') []))) = 3"
proof -
  have h: "\<not> list_all isspace (ascii ''cat'') \<and>
     (\<forall>t. attempt_fails (endpoint (always (Transport_error [])) t (take 5000 (ascii ''cat''))))"
    by (simp add: isspace_def ascii_def always_def)
  show ?thesis
    using translate_text_never_raises [of "always (Transport_error [])" "ascii ''cat''" "[]"] h
    by simp
qed

text \<open>
  C3, at an endpoint that answers every request with status 500: the waits after
  attempts 1 and 2 are 2.5 and 4.5 seconds, as claimed, but after the third attempt the
  function sleeps 8.5 seconds more before it returns the sentinel.
\<close>

theorem translate_text_waits_after_third_status:
  "translate_text (always (Response 500 None)) (ascii ''cat'') [] =
     (Inr FAILED,
      [Http_get (ascii ''cat''), Sleep (5 / 2), Http_get (ascii ''cat''), Sleep (9 / 2),
       Http_get (ascii ''cat''), Sleep (17 / 2)])"
  by (simp add: translate_text_def range_Suc0_4 always_def attempt_body_def ascii_def
      strip_def isspace_def)

text \<open>
  The sibling path: when the third attempt ends in an exception, the handler returns at
  once, without a sleep.
\<close>

lemma translate_text_no_wait_after_third_exception:
  "translate_text (always (Transport_error [])) (ascii ''cat'') [] =
     (Inr FAILED,
      [Http_get (ascii ''cat''), Sleep (5 / 2), Http_get (ascii ''cat''), Sleep (9 / 2),
       Http_get (ascii ''cat''), Print_error (Raised [])])"
  by (simp add: translate_text_def range_Suc0_4 always_def attempt_body_def ascii_def
      strip_def isspace_def)

section \<open>Properties of the registry\<close>

lemma dict_update_map_of: "map_of (dict_update st kv) = map_of st ++ map_of (rev kv)"
proof (induction kv arbitrary: st)
  case Nil
  then show ?case by (simp add: dict_update_def)
next
  case (Cons a kv)
  obtain k v where a: "a = (k, v)" by (cases a)
  have "map_of (dict_update st (a # kv)) = map_of (dict_update (AList.update k v st) kv)"
    by (simp add: dict_update_def a)
  also have "\<dots> = map_of (AList.update k v st) ++ map_of (rev kv)"
    by (rule Cons.IH)
  also have "\<dots> = map_of st ++ map_of (rev (a # kv))"
    by (simp add: a update_conv' map_add_upd_left [symmetric] fun_eq_iff map_add_def split: option.splits)
  finally show ?case .
qed

lemma dict_update_nonempty: "st \<noteq> [] \<Longrightarrow> dict_update st kv \<noteq> []"
proof (induction kv arbitrary: st)
  case Nil
  then show ?case by (simp add: dict_update_def)
next
  case (Cons a kv)
  obtain k v where a: "a = (k, v)" by (cases a)
  have "dict_update st (a # kv) = dict_update (AList.update k v st) kv"
    by (simp add: dict_update_def a)
  with Cons.IH [of "AList.update k v st"] show ?case by simp
qed

lemma get_state_safe_update:
  "get_state task_id ts \<noteq> [] \<Longrightarrow>
   get_state task_id (safe_update task_id kv ts) = dict_update (get_state task_id ts) kv"
  by (auto simp: get_state_def safe_update_def update_conv' split: option.splits)

lemma get_state_safe_update_empty:
  "get_state task_id ts = [] \<Longrightarrow> safe_update task_id kv ts = ts"
  by (auto simp: get_state_def safe_update_def split: option.splits)

lemma map_of_safe_update_other:
  "other \<noteq> task_id \<Longrightarrow> map_of (safe_update task_id kv ts) other = map_of ts other"
  by (auto simp: safe_update_def update_conv' split: option.splits)

lemma safe_update_keeps_records_nonempty:
  assumes "\<forall>t. map_of ts t \<noteq> Some []"
  shows "map_of (safe_update task_id kv ts) t \<noteq> Some []"
  using assms
  by (auto simp: safe_update_def update_conv' dict_update_nonempty split: option.splits)

lemma start_background_task_record_nonempty:
  assumes "\<forall>t. map_of (tasks s) t \<noteq> Some []"
  shows "map_of (tasks (start_background_task file_path filename task_id s)) t \<noteq> Some []"
  using assms by (simp add: start_background_task_def update_conv' initial_record_def Let_def)

text \<open>
  C9: \<open>_safe_update\<close> merges the given fields into the record of a task that exists (a
  field of \<open>kv\<close> replaces the record's, the other fields stay, and the other tasks are left
  alone), and returns the registry unchanged when the task id is absent; nothing in it can
  raise. The record of an existing task is taken to have a field: \<open>if st\<close> also skips an
  empty record, which the registry never holds (the two lemmas above).
\<close>

theorem safe_update_merges_or_noop:
  assumes "map_of ts task_id \<noteq> Some []"
  shows "(\<forall>st. map_of ts task_id = Some st \<longrightarrow>
            map_of (safe_update task_id kv ts) task_id = Some (dict_update st kv) \<and>
            map_of (dict_update st kv) = map_of st ++ map_of (rev kv)) \<and>
         (map_of ts task_id = None \<longrightarrow> safe_update task_id kv ts = ts) \<and>
         (\<forall>other. other \<noteq> task_id \<longrightarrow>
            map_of (safe_update task_id kv ts) other = map_of ts other)"
  using assms
  by (auto simp: safe_update_def update_conv' dict_update_map_of split: option.splits)

theorem safe_update_merges_or_noop_witness:
  "map_of (safe_update ''a'' [(''percent'', VInt 7)] [(''a'', [(''status'', IDLE), (''percent'', VInt 0)])]) ''a''
     = Some [(''status'', IDLE), (''percent'', VInt 7)] \<and>
   safe_update ''b'' [(''percent'', VInt 7)] [(''a'', [(''status'', IDLE), (''percent'', VInt 0)])]
     = [(''a'', [(''status'', IDLE), (''percent'', VInt 0)])]"
proof -
  let ?ts = "[(''a'', [(''status'', IDLE), (''percent'', VInt 0)])]"
  have a: "map_of ?ts ''a'' \<noteq> Some []" by simp
  have b: "map_of ?ts ''b'' \<noteq> Some []" by simp
  have c: "map_of ?ts ''a'' = Some [(''status'', IDLE), (''percent'', VInt 0)]" by simp
  have d: "map_of ?ts ''b'' = None" by simp
  from safe_update_merges_or_noop [OF a, of "[(''percent'', VInt 7)]"] c
  have "map_of (safe_update ''a'' [(''percent'', VInt 7)] ?ts) ''a''
     = Some (dict_update [(''status'', IDLE), (''percent'', VInt 0)] [(''percent'', VInt 7)])"
    by blast
  moreover from safe_update_merges_or_noop [OF b, of "[(''percent'', VInt 7)]"] d
  have "safe_update ''b'' [(''percent'', VInt 7)] ?ts = ?ts" by blast
  ultimately show ?thesis by (simp add: dict_update_def)
qed

section \<open>The invariant of the worker\<close>

lemma status_distinct [simp]:
  "IDLE \<noteq> RUNNING" "IDLE \<noteq> DONE" "IDLE \<noteq> ERROR" "IDLE \<noteq> CANCELED"
  "RUNNING \<noteq> IDLE" "RUNNING \<noteq> DONE" "RUNNING \<noteq> ERROR" "RUNNING \<noteq> CANCELED"
  "DONE \<noteq> IDLE" "DONE \<noteq> RUNNING" "DONE \<noteq> ERROR" "DONE \<noteq> CANCELED"
  "ERROR \<noteq> IDLE" "ERROR \<noteq> RUNNING" "ERROR \<noteq> DONE" "ERROR \<noteq> CANCELED"
  "CANCELED \<noteq> IDLE" "CANCELED \<noteq> RUNNING" "CANCELED \<noteq> DONE" "CANCELED \<noteq> ERROR"
  by (simp_all add: IDLE_def RUNNING_def DONE_def ERROR_def CANCELED_def ascii_def)

lemma summary_dict_update:
  "summary (dict_update st kv) = merge_summary (map_of (rev kv)) (summary st)"
  by (simp add: summary_def merge_summary_def has_field_def dict_update_map_of map_add_def
      split: option.splits)

lemma record_visible:
  "get_state task_id (visible e task_id s) =
     (if cancel_due e s \<and> record_of task_id s \<noteq> []
      then dict_update (record_of task_id s) [(''cancel_requested'', VBool True)]
      else record_of task_id s)"
  by (auto simp: visible_def request_cancel_def record_of_def get_state_safe_update
      get_state_safe_update_empty)

lemma summary_visible:
  "summary (get_state task_id (visible e task_id s)) = summary (record_of task_id s)"
  by (cases "summary (record_of task_id s)")
    (simp add: record_visible summary_dict_update merge_summary_def)

lemma visible_nonempty:
  "record_of task_id s \<noteq> [] \<Longrightarrow> get_state task_id (visible e task_id s) \<noteq> []"
  by (simp add: record_visible dict_update_nonempty)

lemma record_update_task:
  "record_of task_id s \<noteq> [] \<Longrightarrow>
   record_of task_id (update_task e task_id kv s) =
     dict_update (get_state task_id (visible e task_id s)) kv"
proof -
  assume "record_of task_id s \<noteq> []"
  then have "get_state task_id (visible e task_id s) \<noteq> []" by (rule visible_nonempty)
  then show ?thesis
    by (simp add: record_of_def update_task_def Let_def get_state_safe_update)
qed

lemma summary_update_task:
  "record_of task_id s \<noteq> [] \<Longrightarrow>
   summary (record_of task_id (update_task e task_id kv s)) =
     merge_summary (map_of (rev kv)) (summary (record_of task_id s))"
  by (simp add: record_update_task summary_dict_update summary_visible)

lemma update_task_nonempty:
  "record_of task_id s \<noteq> [] \<Longrightarrow> record_of task_id (update_task e task_id kv s) \<noteq> []"
  by (simp add: record_update_task dict_update_nonempty visible_nonempty)

lemma update_task_fields [simp]:
  "trace (update_task e task_id kv s) = trace s @ [Registry_update task_id kv]"
  "snapshots (update_task e task_id kv s) = snapshots s @ [tasks (update_task e task_id kv s)]"
  by (simp_all add: update_task_def Let_def)

lemma rec_ok_summary:
  assumes "summary st = (Some a, Some (VInt p), Some (VInt c), Some (VInt t), out, fin)"
  shows "rec_ok st \<longleftrightarrow>
     0 \<le> p \<and> p \<le> 100 \<and> 0 \<le> c \<and> c \<le> t \<and>
     out = (a = DONE \<and> t \<noteq> 0) \<and> fin = (a = ERROR \<or> (a = DONE \<and> t \<noteq> 0))"
  using assms
  by (auto simp: summary_def rec_ok_def progress_ok_def download_rule_def finished_rule_def
      completed_def)

lemma progress_le_summary:
  assumes "summary st = (a, Some (VInt p), Some (VInt c), t, out, fin)"
      and "summary st' = (a', Some (VInt p'), Some (VInt c'), t', out', fin')"
  shows "progress_le st st' \<longleftrightarrow> p \<le> p' \<and> c \<le> c'"
  using assms by (auto simp: summary_def progress_le_def)

lemma task_history_snoc:
  assumes "length (snapshots s0) \<le> length (snapshots s)"
    and "snapshots s' = snapshots s @ [ts]"
  shows "task_history task_id s0 s' = task_history task_id s0 s @ [get_state task_id ts]"
  using assms by (simp add: task_history_def)

lemma last_task_history:
  assumes "length (snapshots s0) < length (snapshots s)" and "last (snapshots s) = tasks s"
  shows "task_history task_id s0 s \<noteq> [] \<and> last (task_history task_id s0 s) = record_of task_id s"
  using assms by (simp add: task_history_def last_map last_drop record_of_def)

lemma hist_ok_update:
  assumes h: "hist_ok task_id s0 s"
    and ok: "rec_ok (record_of task_id (update_task e task_id kv s))"
    and le: "progress_le (record_of task_id s) (record_of task_id (update_task e task_id kv s))"
  shows "hist_ok task_id s0 (update_task e task_id kv s)"
proof -
  let ?s' = "update_task e task_id kv s"
  from h have l: "length (snapshots s0) < length (snapshots s)"
    and t: "last (snapshots s) = tasks s" and ne: "record_of task_id s \<noteq> []"
    and a: "list_all rec_ok (task_history task_id s0 s)"
    and su: "successively progress_le (task_history task_id s0 s)"
    by (simp_all add: hist_ok_def)
  have hs: "task_history task_id s0 ?s' = task_history task_id s0 s @ [record_of task_id ?s']"
    using l by (simp add: task_history_snoc [where s = s] record_of_def)
  from last_task_history [OF l t]
  have la: "task_history task_id s0 s \<noteq> []"
    "last (task_history task_id s0 s) = record_of task_id s" by simp_all
  show ?thesis
    unfolding hist_ok_def
    using l ne a su ok le la
    by (simp add: hs update_task_nonempty successively_append_iff)
qed

lemma hist_ok_trace:
  "hist_ok task_id s0 (s\<lparr>trace := tr\<rparr>) = hist_ok task_id s0 s"
  by (simp add: hist_ok_def record_of_def task_history_def)

lemma record_of_trace [simp]: "record_of task_id (s\<lparr>trace := tr\<rparr>) = record_of task_id s"
  by (simp add: record_of_def)

lemma percent_mono: "(n * 100) div T \<le> (Suc n * 100) div (T::nat)"
  by (rule div_le_mono) simp

lemma percent_le_100: "n \<le> T \<Longrightarrow> (n * 100) div T \<le> (100::nat)"
proof -
  assume "n \<le> T"
  then have "(n * 100) div T \<le> (T * 100) div T" by (intro div_le_mono) simp
  also have "\<dots> \<le> 100" by (cases "T = 0") simp_all
  finally show ?thesis .
qed

lemma hist_ok_step:
  assumes h: "hist_ok task_id s0 s"
    and old: "summary (record_of task_id s) = (a, Some (VInt p), Some (VInt c), t, out, fin)"
    and new: "merge_summary (map_of (rev kv)) (a, Some (VInt p), Some (VInt c), t, out, fin) =
               (Some a', Some (VInt p'), Some (VInt c'), Some (VInt t'), out', fin')"
    and ok: "0 \<le> p'" "p' \<le> 100" "0 \<le> c'" "c' \<le> t'"
      "out' = (a' = DONE \<and> t' \<noteq> 0)" "fin' = (a' = ERROR \<or> (a' = DONE \<and> t' \<noteq> 0))"
    and le: "p \<le> p'" "c \<le> c'"
  shows "hist_ok task_id s0 (update_task e task_id kv s) \<and>
         summary (record_of task_id (update_task e task_id kv s)) =
           (Some a', Some (VInt p'), Some (VInt c'), Some (VInt t'), out', fin')"
proof -
  from h have ne: "record_of task_id s \<noteq> []" by (simp add: hist_ok_def)
  have s': "summary (record_of task_id (update_task e task_id kv s)) =
           (Some a', Some (VInt p'), Some (VInt c'), Some (VInt t'), out', fin')"
    using summary_update_task [OF ne, of e kv] old new by simp
  have "rec_ok (record_of task_id (update_task e task_id kv s))"
    using rec_ok_summary [OF s'] ok by simp
  moreover have "progress_le (record_of task_id s) (record_of task_id (update_task e task_id kv s))"
    using progress_le_summary [OF old s'] le by simp
  ultimately show ?thesis using hist_ok_update [OF h] s' by simp
qed

lemma progress_step:
  assumes h: "hist_ok task_id s0 s"
    and old: "summary (record_of task_id s) = running_sum n T"
    and T: "Suc n \<le> T"
  shows "hist_ok task_id s0
           (update_task e task_id
              [(''current'', VInt (int (Suc n))), (''percent'', VInt (int ((Suc n * 100) div T))),
               (''eta_seconds'', VInt eta), (''message'', VStr m)] s) \<and>
         summary (record_of task_id
           (update_task e task_id
              [(''current'', VInt (int (Suc n))), (''percent'', VInt (int ((Suc n * 100) div T))),
               (''eta_seconds'', VInt eta), (''message'', VStr m)] s)) = running_sum (Suc n) T"
  unfolding running_sum_def
  apply (rule hist_ok_step [OF h old [unfolded running_sum_def]])
  using T percent_mono [of n T] percent_le_100 [of "Suc n" T]
  by (simp_all add: merge_summary_def)

lemma cancel_step:
  assumes h: "hist_ok task_id s0 s"
    and old: "summary (record_of task_id s) = running_sum n T"
    and T: "n \<le> T"
  shows "hist_ok task_id s0
           (update_task e task_id [(''status'', CANCELED), (''message'', VStr m)] s) \<and>
         summary (record_of task_id
           (update_task e task_id [(''status'', CANCELED), (''message'', VStr m)] s)) =
           (Some CANCELED, Some (VInt (int ((n * 100) div T))), Some (VInt (int n)),
            Some (VInt (int T)), False, False)"
  apply (rule hist_ok_step [OF h old [unfolded running_sum_def]])
  using T percent_le_100 [of n T]
  by (simp_all add: merge_summary_def)

lemma error_step:
  assumes h: "hist_ok task_id s0 s"
    and old: "summary (record_of task_id s) = running_sum n T"
    and T: "n \<le> T"
  shows "hist_ok task_id s0
           (update_task e task_id
              [(''status'', ERROR), (''message'', VStr m), (''finished_at'', VFloat x)] s) \<and>
         summary (record_of task_id
           (update_task e task_id
              [(''status'', ERROR), (''message'', VStr m), (''finished_at'', VFloat x)] s)) =
           (Some ERROR, Some (VInt (int ((n * 100) div T))), Some (VInt (int n)),
            Some (VInt (int T)), False, True)"
  apply (rule hist_ok_step [OF h old [unfolded running_sum_def]])
  using T percent_le_100 [of n T]
  by (simp_all add: merge_summary_def)

lemma finished_step:
  assumes h: "hist_ok task_id s0 s"
    and old: "summary (record_of task_id s) = running_sum T T"
    and T: "0 < T"
  shows "hist_ok task_id s0
           (update_task e task_id
              [(''status'', DONE), (''percent'', VInt 100), (''eta_seconds'', VInt 0),
               (''message'', VStr m), (''download_filename'', VStr d),
               (''finished_at'', VFloat x)] s) \<and>
         summary (record_of task_id
           (update_task e task_id
              [(''status'', DONE), (''percent'', VInt 100), (''eta_seconds'', VInt 0),
               (''message'', VStr m), (''download_filename'', VStr d),
               (''finished_at'', VFloat x)] s)) =
           (Some DONE, Some (VInt 100), Some (VInt (int T)), Some (VInt (int T)), True, True)"
  apply (rule hist_ok_step [OF h old [unfolded running_sum_def]])
  using T percent_le_100 [of T T]
  by (simp_all add: merge_summary_def)

lemma total_step:
  assumes h: "hist_ok task_id s0 s"
    and old: "summary (record_of task_id s) = running_sum 0 0"
  shows "hist_ok task_id s0
           (update_task e task_id [(''total'', VInt (int T)), (''current'', VInt 0)] s) \<and>
         summary (record_of task_id
           (update_task e task_id [(''total'', VInt (int T)), (''current'', VInt 0)] s)) =
           running_sum 0 T"
  unfolding running_sum_def
  apply (rule hist_ok_step [OF h old [unfolded running_sum_def]])
  by (simp_all add: merge_summary_def)

lemma nothing_step:
  assumes h: "hist_ok task_id s0 s"
    and old: "summary (record_of task_id s) = running_sum 0 0"
  shows "hist_ok task_id s0
           (update_task e task_id
              [(''status'', DONE), (''percent'', VInt 100), (''message'', VStr m)] s) \<and>
         summary (record_of task_id
           (update_task e task_id
              [(''status'', DONE), (''percent'', VInt 100), (''message'', VStr m)] s)) =
           (Some DONE, Some (VInt 100), Some (VInt 0), Some (VInt 0), False, False)"
  apply (rule hist_ok_step [OF h old [unfolded running_sum_def]])
  by (simp_all add: merge_summary_def)

lemma running_step:
  assumes h: "hist_ok task_id s0 s"
    and old: "summary (record_of task_id s) =
       (Some IDLE, Some (VInt 0), Some (VInt 0), Some (VInt 0), False, False)"
  shows "hist_ok task_id s0
           (update_task e task_id
              [(''status'', RUNNING), (''message'', VStr m), (''percent'', VInt 0),
               (''started_at'', VFloat x)] s) \<and>
         summary (record_of task_id
           (update_task e task_id
              [(''status'', RUNNING), (''message'', VStr m), (''percent'', VInt 0),
               (''started_at'', VFloat x)] s)) = running_sum 0 0"
  unfolding running_sum_def
  apply (rule hist_ok_step [OF h old])
  by (simp_all add: merge_summary_def)

text \<open>\<open>int(done_total * 100 / total)\<close> is the integer quotient.\<close>

lemma int_of_float_quotient: "int_of_float (real a / real b) = int (a div b)"
  by (simp add: int_of_float_def floor_divide_of_nat_eq)

lemma for_rows_inv:
  assumes "hist_ok task_id s0 s" "summary (record_of task_id s) = running_sum n T"
    "n + length rows \<le> T" "batch_start + i = Suc n"
    "for_rows e task_id tc ii T start batch_start (enumerate i rows) w s = (r, w', s')"
  shows "hist_ok task_id s0 s' \<and>
         (\<exists>n'. n \<le> n' \<and> n' \<le> n + length rows \<and>
               summary (record_of task_id s') = running_sum n' T \<and>
               (r = None \<longrightarrow> n' = n + length rows))"
  using assms
proof (induction rows arbitrary: i n w s)
  case Nil
  then show ?case by auto
next
  case (Cons row rows)
  obtain res tr where tt: "translate_text e (str_value (cells w row tc)) (trace s) = (res, tr)"
    by (cases "translate_text e (str_value (cells w row tc)) (trace s)")
  show ?case
  proof (cases res)
    case (Inl x)
    with tt Cons.prems(5) have "r = Some x" "s' = s\<lparr>trace := tr\<rparr>"
      by (simp_all add: Let_def)
    with Cons.prems(1,2) show ?thesis
      by (auto simp: hist_ok_trace intro: exI [of _ n])
  next
    case (Inr t)
    from Cons.prems(3) have T: "Suc n \<le> T" "T \<noteq> 0" by simp_all
    define s1 where "s1 = s\<lparr>trace := tr @ [Cell_write row ii t]\<rparr>"
    define eta where "eta = (if batch_start + i \<noteq> 0
        then int_of_float (real_of_int (int T - int (batch_start + i)) /
           (real (batch_start + i) / max (clock e (length (trace s1)) - start) (1 / 1000000)))
        else 0)"
    define s2 where "s2 = update_task e task_id
              [(''current'', VInt (int (Suc n))), (''percent'', VInt (int ((Suc n * 100) div T))),
               (''eta_seconds'', VInt eta), (''message'', VStr (msg_progress (Suc n) T))] s1"
    have h1: "hist_ok task_id s0 s1" "summary (record_of task_id s1) = running_sum n T"
      using Cons.prems(1,2) by (simp_all add: s1_def hist_ok_trace)
    from progress_step [OF h1 T(1), of e eta "msg_progress (Suc n) T"]
    have h2: "hist_ok task_id s0 s2" "summary (record_of task_id s2) = running_sum (Suc n) T"
      by (simp_all add: s2_def)
    have eq: "for_rows e task_id tc ii T start batch_start (enumerate i (row # rows)) w s =
       for_rows e task_id tc ii T start batch_start (enumerate (Suc i) rows)
         (set_cell row ii (CStr t) w) s2"
      using tt Inr T(2) Cons.prems(4)
      by (simp add: Let_def s2_def s1_def eta_def int_of_float_quotient
          del: of_nat_mult of_nat_add of_nat_Suc)
    from Cons.prems(5) eq
    have run: "for_rows e task_id tc ii T start batch_start (enumerate (Suc i) rows)
         (set_cell row ii (CStr t) w) s2 = (r, w', s')" by simp
    from Cons.prems(3) have l: "Suc n + length rows \<le> T" by simp
    from Cons.prems(4) have i: "batch_start + Suc i = Suc (Suc n)" by simp
    from Cons.IH [OF h2 l i run] obtain n' where
      "hist_ok task_id s0 s'" "Suc n \<le> n'" "n' \<le> Suc n + length rows"
      "summary (record_of task_id s') = running_sum n' T"
      "r = None \<longrightarrow> n' = Suc n + length rows" by blast
    then show ?thesis by (auto intro!: exI [of _ n'])
  qed
qed

lemma read_task_simps [simp]:
  "fst (read_task e task_id s) = get_state task_id (visible e task_id s)"
  "snd (read_task e task_id s) = s\<lparr>trace := trace s @ [Registry_get task_id]\<rparr>"
  by (simp_all add: read_task_def)

lemma for_batches_inv:
  assumes "hist_ok task_id s0 s"
    "summary (record_of task_id s) = running_sum (min (j * BATCH) T) T"
    "length rows = T" "T \<le> m * BATCH" "(m - 1) * BATCH < T"
    "for_batches e task_id tc ii rows T start out (map (\<lambda>i. i * BATCH) [j..<m]) w s = (r, w', s')"
  shows "hist_ok task_id s0 s' \<and>
         (\<forall>x. r = Inl x \<longrightarrow> (\<exists>n. n \<le> T \<and> summary (record_of task_id s') = running_sum n T)) \<and>
         (r = Inr Return \<longrightarrow> (\<exists>n. n \<le> T \<and> summary (record_of task_id s') = canceled_sum n T)) \<and>
         (r = Inr Fallthrough \<longrightarrow> summary (record_of task_id s') = running_sum T T)"
  using assms
proof (induction "m - j" arbitrary: j w s)
  case 0
  then have mj: "m \<le> j" by simp
  then have "m * BATCH \<le> j * BATCH" by (rule mult_le_mono1)
  with "0.prems"(4) have "T \<le> j * BATCH" by (rule le_trans)
  then have "min (j * BATCH) T = T" by (rule min_absorb2)
  with mj "0.prems" show ?case by auto
next
  case (Suc k)
  then have jm: "j < m" and up: "[j..<m] = j # [Suc j..<m]" and k: "k = m - Suc j"
    by (auto simp: upt_conv_Cons)
  from jm have "j * BATCH \<le> (m - 1) * BATCH" by (intro mult_le_mono1) simp
  then have jT: "j * BATCH < T" using Suc.prems(5) by (rule le_less_trans)
  then have mn: "min (j * BATCH) T = j * BATCH" by simp
  define s1 where "s1 = s\<lparr>trace := trace s @ [Registry_get task_id]\<rparr>"
  have h1: "hist_ok task_id s0 s1" "summary (record_of task_id s1) = running_sum (j * BATCH) T"
    using Suc.prems(1,2) mn by (simp_all add: s1_def hist_ok_trace)
  have rt: "read_task e task_id s = (get_state task_id (visible e task_id s), s1)"
    by (simp add: read_task_def s1_def)
  show ?case
  proof (cases "get_truthy (get_state task_id (visible e task_id s)) ''cancel_requested''")
    case True
    with Suc.prems(6) up rt have r: "r = Inr Return"
      "s' = update_task e task_id [(''status'', CANCELED), (''message'', VStr MSG_CANCELED)] s1"
      by simp_all
    from cancel_step [OF h1, of e MSG_CANCELED] jT r show ?thesis
      by (auto simp: canceled_sum_def intro!: exI [of _ "j * BATCH"])
  next
    case False
    define batch_rows where "batch_rows = take BATCH (drop (j * BATCH) rows)"
    obtain r2 w2 s2 where fr: "for_rows e task_id tc ii T start (j * BATCH)
        (enumerate 1 batch_rows) w s1 = (r2, w2, s2)"
      by (cases "for_rows e task_id tc ii T start (j * BATCH) (enumerate 1 batch_rows) w s1")
    have len: "length batch_rows = min BATCH (T - j * BATCH)"
      by (simp add: batch_rows_def Suc.prems(3))
    then have l: "j * BATCH + length batch_rows \<le> T" using jT by simp
    from for_rows_inv [OF h1 l _ fr] obtain n' where
      n': "hist_ok task_id s0 s2" "n' \<le> j * BATCH + length batch_rows"
      "summary (record_of task_id s2) = running_sum n' T"
      "r2 = None \<longrightarrow> n' = j * BATCH + length batch_rows" by auto
    show ?thesis
    proof (cases r2)
      case (Some x)
      with Suc.prems(6) up rt False fr have "r = Inl x" "s' = s2"
        by (simp_all add: batch_rows_def Let_def)
      with n' l show ?thesis by (auto intro!: exI [of _ n'])
    next
      case None
      with n' len jT have n'eq: "n' = min (Suc j * BATCH) T" by (auto simp: min_def)
      show ?thesis
      proof (cases "save_raises e (length (trace s2))")
        case (Some x)
        with Suc.prems(6) up rt False fr None
        have "r = Inl x" "s' = s2\<lparr>trace := trace s2 @ [Save out]\<rparr>"
          by (simp_all add: batch_rows_def Let_def)
        with n' l show ?thesis by (auto simp: hist_ok_trace intro!: exI [of _ n'])
      next
        case N2: None
        define s3 where "s3 = s2\<lparr>trace := trace s2 @ [Save out, Sleep 2]\<rparr>"
        from Suc.prems(6) up rt False fr None N2
        have run: "for_batches e task_id tc ii rows T start out
            (map (\<lambda>i. i * BATCH) [Suc j..<m]) w2 s3 = (r, w', s')"
          by (simp add: batch_rows_def Let_def s3_def)
        have h3: "hist_ok task_id s0 s3"
          "summary (record_of task_id s3) = running_sum (min (Suc j * BATCH) T) T"
          using n' n'eq by (simp_all add: s3_def hist_ok_trace)
        from Suc.hyps(1) [OF k h3 Suc.prems(3,4,5) run] show ?thesis .
      qed
    qed
  qed
qed

lemma range_step_BATCH:
  "range_step T BATCH = map (\<lambda>i. i * BATCH) [0..<(T + 9) div 10]"
  by (simp add: range_step_def BATCH_def add.commute)

lemma batch_count_bounds:
  "T \<le> ((T + 9) div 10) * BATCH" "0 < T \<Longrightarrow> ((T + 9) div 10 - 1) * BATCH < T"
  unfolding BATCH_def by presburger+

lemma try_block_inv:
  assumes h: "hist_ok task_id s0 s"
    and su: "summary (record_of task_id s) = running_sum 0 0"
    and run: "try_block e file_path task_id loaded s = (r, s')"
  shows "hist_ok task_id s0 s' \<and>
         (\<forall>x. r = Inl x \<longrightarrow>
            (\<exists>n T. n \<le> T \<and> summary (record_of task_id s') = running_sum n T))"
proof -
  define sl where "sl = s\<lparr>trace := trace s @ [Load_workbook file_path]\<rparr>"
  have hl: "hist_ok task_id s0 sl" "summary (record_of task_id sl) = running_sum 0 0"
    using h su by (simp_all add: sl_def hist_ok_trace)
  have early: "s' = sl \<Longrightarrow> ?thesis"
    using hl by (auto intro!: exI [of _ 0])
  show ?thesis
  proof (cases loaded)
    case (Inl x)
    with run have "s' = sl" by (simp add: try_block_def sl_def)
    then show ?thesis by (rule early)
  next
    case (Inr wo)
    show ?thesis
    proof (cases wo)
      case None
      with Inr run have "s' = sl" by (simp add: try_block_def sl_def)
      then show ?thesis by (rule early)
    next
      case (Some w0)
      show ?thesis
      proof (cases "find_title (header w0)")
        case None
        with Inr Some run have "s' = sl" by (simp add: try_block_def sl_def)
        then show ?thesis by (rule early)
      next
        case (Some c)
        note c = Some
        show ?thesis
        proof (cases "c = 0")
          case True
          with Inr \<open>wo = Some w0\<close> c run have "s' = sl" by (simp add: try_block_def sl_def)
          then show ?thesis by (rule early)
        next
          case False
          define w1 where "w1 = (if cells w0 1 (c + 1) \<noteq> CStr ZH
             then set_cell 1 (c + 1) (CStr ZH) (insert_cols (c + 1) w0) else w0)"
          define s1 where "s1 = (if cells w0 1 (c + 1) \<noteq> CStr ZH
             then sl\<lparr>trace := trace sl @ [Insert_cols (c + 1), Cell_write 1 (c + 1) ZH]\<rparr>
             else sl)"
          define rows where "rows = rows_to_tr w1 c"
          define T where "T = length rows"
          define s2 where "s2 = update_task e task_id
               [(''total'', VInt (int T)), (''current'', VInt 0)] s1"
          have h1: "hist_ok task_id s0 s1" "summary (record_of task_id s1) = running_sum 0 0"
            using hl by (simp_all add: s1_def hist_ok_trace)
          from total_step [OF h1, of e T]
          have h2: "hist_ok task_id s0 s2" "summary (record_of task_id s2) = running_sum 0 T"
            by (simp_all add: s2_def)
          show ?thesis
          proof (cases "T = 0")
            case True
            have "r = Inr Return \<and> s' = update_task e task_id
                [(''status'', DONE), (''percent'', VInt 100), (''message'', VStr MSG_NOTHING)] s2"
              using run Inr \<open>wo = Some w0\<close> c False True
              by (auto simp: try_block_def sl_def [symmetric] Let_def w1_def s1_def rows_def
                  T_def s2_def split: if_splits)
            with nothing_step [of task_id s0 s2 e MSG_NOTHING] h2 True show ?thesis by simp
          next
            case Tpos: False
            define start where "start = clock e (length (trace s2))"
            define out where "out = path_join (ascii ''/tmp'')
                (splitext_root (basename file_path) @ SUFFIX)"
            obtain r3 w3 s3 where fb: "for_batches e task_id c (c + 1) rows T start out
                (range_step T BATCH) w1 s2 = (r3, w3, s3)"
              by (cases "for_batches e task_id c (c + 1) rows T start out
                (range_step T BATCH) w1 s2")
            have h2': "summary (record_of task_id s2) = running_sum (min (0 * BATCH) T) T"
              using h2 by simp
            from Tpos have Tp: "0 < T" by simp
            from for_batches_inv [OF h2(1) h2' T_def [symmetric] batch_count_bounds(1)
                batch_count_bounds(2) [OF Tp] fb [unfolded range_step_BATCH]]
            have h3: "hist_ok task_id s0 s3"
              "\<And>x. r3 = Inl x \<Longrightarrow> \<exists>n. n \<le> T \<and> summary (record_of task_id s3) = running_sum n T"
              "r3 = Inr Fallthrough \<Longrightarrow> summary (record_of task_id s3) = running_sum T T"
              by blast+
            note facts = run Inr \<open>wo = Some w0\<close> c False Tpos fb
            note defs = try_block_def sl_def Let_def w1_def s1_def rows_def
                  T_def s2_def start_def out_def
            show ?thesis
            proof (cases r3)
              case (Inl x)
              with facts have "r = Inl x \<and> s' = s3"
                by (auto simp: defs split: if_splits)
              with h3(1) h3(2) [OF Inl] show ?thesis by auto
            next
              case (Inr f)
              show ?thesis
              proof (cases f)
                case Return
                with Inr facts have "r = Inr Return \<and> s' = s3"
                  by (auto simp: defs split: if_splits)
                with h3(1) show ?thesis by auto
              next
                case Fallthrough
                with Inr facts have "r = Inr Fallthrough \<and> s' = update_task e task_id
                        [(''status'', DONE), (''percent'', VInt 100),
                         (''eta_seconds'', VInt 0),
                         (''message'', VStr (msg_finished T)),
                         (''download_filename'', VStr (basename out)),
                         (''finished_at'', VFloat (clock e (length (trace s3))))] s3"
                  by (auto simp: defs split: if_splits)
                with Inr Fallthrough h3(3) finished_step [OF h3(1) _ Tp, of e "msg_finished T"
                    "basename out" "clock e (length (trace s3))"]
                show ?thesis by auto
              qed
            qed
          qed
        qed
      qed
    qed
  qed
qed

lemma finally_block_fields [simp]:
  "tasks (finally_block e file_path task_id s) = tasks s"
  "snapshots (finally_block e file_path task_id s) = snapshots s"
  by (simp_all add: finally_block_def Let_def)

lemma hist_ok_finally:
  "hist_ok task_id s0 (finally_block e file_path tid s) = hist_ok task_id s0 s"
  by (simp add: hist_ok_def record_of_def task_history_def)

lemma run_task_inv:
  assumes h: "hist_ok task_id s0 s"
    and su: "summary (record_of task_id s) =
       (Some IDLE, Some (VInt 0), Some (VInt 0), Some (VInt 0), False, False)"
  shows "hist_ok task_id s0 (run_task e file_path task_id loaded s)"
proof -
  define s1 where "s1 = update_task e task_id
                 [(''status'', RUNNING), (''message'', VStr MSG_READING),
                  (''percent'', VInt 0), (''started_at'', VFloat (clock e (length (trace s))))] s"
  from running_step [OF h su, of e MSG_READING "clock e (length (trace s))"]
  have h1: "hist_ok task_id s0 s1" "summary (record_of task_id s1) = running_sum 0 0"
    by (simp_all add: s1_def)
  obtain r s2 where tb: "try_block e file_path task_id loaded s1 = (r, s2)"
    by (cases "try_block e file_path task_id loaded s1")
  from try_block_inv [OF h1 tb]
  have h2: "hist_ok task_id s0 s2"
    "\<And>x. r = Inl x \<Longrightarrow> \<exists>n T. n \<le> T \<and> summary (record_of task_id s2) = running_sum n T"
    by blast+
  show ?thesis
  proof (cases r)
    case (Inl x)
    from h2(2) [OF Inl] obtain n T where
      nT: "n \<le> T" "summary (record_of task_id s2) = running_sum n T" by blast
    from error_step [OF h2(1) nT(2) nT(1), of e "str_exn x" "clock e (length (trace s2))"]
    show ?thesis using tb Inl
      by (simp add: run_task_def s1_def [symmetric] hist_ok_finally)
  next
    case (Inr f)
    with tb h2(1) show ?thesis
      by (simp add: run_task_def s1_def [symmetric] hist_ok_finally)
  qed
qed

lemma hist_ok_start:
  "hist_ok task_id s0 (start_background_task file_path filename task_id s0) \<and>
   summary (record_of task_id (start_background_task file_path filename task_id s0)) =
     (Some IDLE, Some (VInt 0), Some (VInt 0), Some (VInt 0), False, False)"
proof -
  have r: "record_of task_id (start_background_task file_path filename task_id s0) =
     initial_record file_path filename"
    by (simp add: record_of_def start_background_task_def Let_def get_state_def update_conv')
  have s: "summary (initial_record file_path filename) =
     (Some IDLE, Some (VInt 0), Some (VInt 0), Some (VInt 0), False, False)"
    by (simp add: summary_def initial_record_def has_field_def)
  have hst: "task_history task_id s0 (start_background_task file_path filename task_id s0) =
     [initial_record file_path filename]"
    using r by (simp add: task_history_def start_background_task_def Let_def record_of_def)
  have ok: "rec_ok (initial_record file_path filename)"
    using rec_ok_summary [OF s] by simp
  show ?thesis
    using r s hst ok
    by (simp add: hist_ok_def start_background_task_def Let_def initial_record_def)
qed

lemma task_run_hist_ok:
  "hist_ok task_id s0 (task_run e file_path filename task_id loaded s0)"
  unfolding task_run_def
  using hist_ok_start [of task_id s0 file_path filename] run_task_inv by blast

section \<open>Properties of the task record\<close>

lemma find_title_mem: "find_title xs = Some c \<Longrightarrow> c \<in> fst ` set xs"
  by (induction xs) (auto split: if_splits)

lemma find_title_pos: "find_title (header w) = Some c \<Longrightarrow> 0 < c"
  by (drule find_title_mem) (auto simp: header_def)

lemma prepared_rows:
  "rows_to_tr (set_cell (Suc 0) (Suc c) v (insert_cols (Suc c) w)) c = rows_to_tr w c"
proof -
  have l: "[2..<Suc (max (max_row w) 1)] = [2..<Suc (max_row w)]"
    by (cases "max_row w = 0") (simp_all add: max_def)
  show ?thesis
    unfolding rows_to_tr_def
    by (rule filter_cong) (auto simp: set_cell_def insert_cols_def l)
qed

lemma map_of_record_update_task:
  "record_of task_id s \<noteq> [] \<Longrightarrow>
   map_of (record_of task_id (update_task e task_id kv s)) k =
     (case map_of (rev kv) k of
        Some v \<Rightarrow> Some v
      | None \<Rightarrow> map_of (get_state task_id (visible e task_id s)) k)"
  by (simp add: record_update_task dict_update_map_of map_add_def)

lemma try_block_zero_rows:
  assumes ft: "find_title (header w0) = Some c" and z: "rows_to_tr w0 c = []"
  shows "\<exists>sp evs. try_block e file_path task_id (Inr (Some w0)) s =
           (Inr Return,
            update_task e task_id
              [(''status'', DONE), (''percent'', VInt 100), (''message'', VStr MSG_NOTHING)]
              (update_task e task_id [(''total'', VInt 0), (''current'', VInt 0)] sp)) \<and>
         sp = s\<lparr>trace := trace s @ evs\<rparr> \<and> filter is_save evs = []"
proof (cases "cells w0 1 (Suc c) \<noteq> CStr ZH")
  case True
  from ft have c: "c \<noteq> 0" using find_title_pos by blast
  have "try_block e file_path task_id (Inr (Some w0)) s =
           (Inr Return,
            update_task e task_id
              [(''status'', DONE), (''percent'', VInt 100), (''message'', VStr MSG_NOTHING)]
              (update_task e task_id [(''total'', VInt 0), (''current'', VInt 0)]
                (s\<lparr>trace := trace s @ [Load_workbook file_path, Insert_cols (Suc c),
                     Cell_write 1 (Suc c) ZH]\<rparr>)))"
    using ft z c True by (simp add: try_block_def Let_def prepared_rows)
  then show ?thesis
    by (intro exI [of _ "s\<lparr>trace := trace s @ [Load_workbook file_path, Insert_cols (Suc c),
                     Cell_write 1 (Suc c) ZH]\<rparr>"]
        exI [of _ "[Load_workbook file_path, Insert_cols (Suc c), Cell_write 1 (Suc c) ZH]"]) simp
next
  case False
  from ft have c: "c \<noteq> 0" using find_title_pos by blast
  have "try_block e file_path task_id (Inr (Some w0)) s =
           (Inr Return,
            update_task e task_id
              [(''status'', DONE), (''percent'', VInt 100), (''message'', VStr MSG_NOTHING)]
              (update_task e task_id [(''total'', VInt 0), (''current'', VInt 0)]
                (s\<lparr>trace := trace s @ [Load_workbook file_path]\<rparr>)))"
    using ft z c False by (simp add: try_block_def Let_def)
  then show ?thesis
    by (intro exI [of _ "s\<lparr>trace := trace s @ [Load_workbook file_path]\<rparr>"]
        exI [of _ "[Load_workbook file_path]"]) simp
qed

lemma finally_block_trace:
  "\<exists>evs. trace (finally_block e file_path task_id s) = trace s @ evs \<and>
     filter is_save evs = [] \<and> filter is_cell_write evs = [] \<and> filter is_http_get evs = []"
  by (simp add: finally_block_def Let_def)

lemma record_of_finally [simp]:
  "record_of task_id (finally_block e file_path tid s) = record_of task_id s"
  by (simp add: record_of_def)

text \<open>The run of a task whose sheet has a Title column and no row to translate.\<close>

lemma zero_rows_run:
  fixes e :: env and file_path filename :: ustr and task_id :: string and s0 :: world
  assumes ft: "find_title (header w0) = Some c" and z: "rows_to_tr w0 c = []"
  defines "s' \<equiv> task_run e file_path filename task_id (Inr (Some w0)) s0"
  shows "summary (record_of task_id s') =
           (Some DONE, Some (VInt 100), Some (VInt 0), Some (VInt 0), False, False)"
    and "map_of (record_of task_id s') ''message'' = Some (VStr MSG_NOTHING)"
    and "\<exists>evs. trace s' = trace s0 @ evs \<and> filter is_save evs = []"
proof -
  define sa where "sa = start_background_task file_path filename task_id s0"
  define sb where "sb = update_task e task_id
                 [(''status'', RUNNING), (''message'', VStr MSG_READING),
                  (''percent'', VInt 0), (''started_at'', VFloat (clock e (length (trace sa))))] sa"
  from hist_ok_start [of task_id s0 file_path filename]
  have ha: "hist_ok task_id s0 sa" "summary (record_of task_id sa) =
     (Some IDLE, Some (VInt 0), Some (VInt 0), Some (VInt 0), False, False)"
    by (simp_all add: sa_def)
  from running_step [OF ha, of e MSG_READING "clock e (length (trace sa))"]
  have hb: "hist_ok task_id s0 sb" "summary (record_of task_id sb) = running_sum 0 0"
    by (simp_all add: sb_def)
  from try_block_zero_rows [OF ft z, of e file_path task_id sb] obtain sp evs where
    tb: "try_block e file_path task_id (Inr (Some w0)) sb =
           (Inr Return,
            update_task e task_id
              [(''status'', DONE), (''percent'', VInt 100), (''message'', VStr MSG_NOTHING)]
              (update_task e task_id [(''total'', VInt 0), (''current'', VInt 0)] sp))"
    and sp: "sp = sb\<lparr>trace := trace sb @ evs\<rparr>" and evs: "filter is_save evs = []"
    by blast
  define sc where "sc = update_task e task_id [(''total'', VInt 0), (''current'', VInt 0)] sp"
  define sd where "sd = update_task e task_id
              [(''status'', DONE), (''percent'', VInt 100), (''message'', VStr MSG_NOTHING)] sc"
  have hp: "hist_ok task_id s0 sp" "summary (record_of task_id sp) = running_sum 0 0"
    using hb by (simp_all add: sp hist_ok_trace)
  from total_step [OF hp, of e 0]
  have hc: "hist_ok task_id s0 sc" "summary (record_of task_id sc) = running_sum 0 0"
    by (simp_all add: sc_def)
  from nothing_step [OF hc, of e MSG_NOTHING]
  have hd: "summary (record_of task_id sd) =
           (Some DONE, Some (VInt 100), Some (VInt 0), Some (VInt 0), False, False)"
    by (simp add: sd_def)
  have s': "s' = finally_block e file_path task_id sd"
    using tb by (simp add: s'_def task_run_def run_task_def sa_def [symmetric]
        sb_def [symmetric] sc_def sd_def)
  show "summary (record_of task_id s') =
           (Some DONE, Some (VInt 100), Some (VInt 0), Some (VInt 0), False, False)"
    using hd by (simp add: s')
  from hc have "record_of task_id sc \<noteq> []" by (simp add: hist_ok_def)
  then show "map_of (record_of task_id s') ''message'' = Some (VStr MSG_NOTHING)"
    by (simp add: s' sd_def map_of_record_update_task)
  obtain fe where fe: "trace s' = trace sd @ fe" "filter is_save fe = []"
    using finally_block_trace [of e file_path task_id sd] s' by auto
  have "trace sd = trace s0 @ ([Registry_create task_id (initial_record file_path filename),
      Registry_update task_id [(''status'', RUNNING), (''message'', VStr MSG_READING),
                  (''percent'', VInt 0), (''started_at'', VFloat (clock e (length (trace sa))))]]
      @ evs @ [Registry_update task_id [(''total'', VInt 0), (''current'', VInt 0)],
         Registry_update task_id
              [(''status'', DONE), (''percent'', VInt 100), (''message'', VStr MSG_NOTHING)]])"
    by (simp add: sd_def sc_def sp sb_def) (simp add: sa_def start_background_task_def Let_def)
  with fe evs show "\<exists>evs. trace s' = trace s0 @ evs \<and> filter is_save evs = []"
    by (intro exI [of _ "([Registry_create task_id (initial_record file_path filename),
      Registry_update task_id [(''status'', RUNNING), (''message'', VStr MSG_READING),
                  (''percent'', VInt 0), (''started_at'', VFloat (clock e (length (trace sa))))]]
      @ evs @ [Registry_update task_id [(''total'', VInt 0), (''current'', VInt 0)],
         Registry_update task_id
              [(''status'', DONE), (''percent'', VInt 100), (''message'', VStr MSG_NOTHING)]]) @ fe"])
      simp
qed

lemma hist_ok_history:
  assumes "hist_ok task_id s0 s"
  shows "task_history task_id s0 s \<noteq> []" "list_all rec_ok (task_history task_id s0 s)"
    "successively progress_le (task_history task_id s0 s)"
  using assms last_task_history [of s0 s task_id] by (simp_all add: hist_ok_def)

text \<open>
  C8: in the history of every task, from its creation through \<open>running\<close> to its last
  record, whatever the sheet, the endpoint, the clock, a failing save or a cancel request:
  \<open>percent\<close> stays within 0 to 100, \<open>current\<close> never exceeds \<open>total\<close>, and from each
  record to the next \<open>percent\<close> and \<open>current\<close> do not decrease.
\<close>

theorem progress_monotone_bounded:
  "task_history task_id s0 (task_run e file_path filename task_id loaded s0) \<noteq> [] \<and>
   list_all progress_ok (task_history task_id s0 (task_run e file_path filename task_id loaded s0)) \<and>
   successively progress_le
     (task_history task_id s0 (task_run e file_path filename task_id loaded s0))"
proof -
  note h = hist_ok_history [OF task_run_hist_ok [of task_id s0 e file_path filename loaded]]
  from h(2) have "list_all progress_ok
      (task_history task_id s0 (task_run e file_path filename task_id loaded s0))"
    by (simp add: list_all_iff rec_ok_def)
  with h(1,3) show ?thesis by simp
qed

text \<open>
  C1, as amended: in every record of a task's history, \<open>download_filename\<close> is there if and
  only if the status is \<open>done\<close> and \<open>total\<close> is not zero. So every task that is done after
  translating rows has it, a task done because there was nothing to translate does not, and
  no record with status \<open>idle\<close>, \<open>running\<close>, \<open>error\<close> or \<open>canceled\<close> has it.
\<close>

theorem download_filename_iff_completed:
  "task_history task_id s0 (task_run e file_path filename task_id loaded s0) \<noteq> [] \<and>
   list_all
     (\<lambda>st. (map_of st ''download_filename'' \<noteq> None) =
            (map_of st ''status'' = Some DONE \<and> map_of st ''total'' \<noteq> Some (VInt 0)))
     (task_history task_id s0 (task_run e file_path filename task_id loaded s0))"
proof -
  note h = hist_ok_history [OF task_run_hist_ok [of task_id s0 e file_path filename loaded]]
  from h(2) have "list_all
     (\<lambda>st. (map_of st ''download_filename'' \<noteq> None) =
            (map_of st ''status'' = Some DONE \<and> map_of st ''total'' \<noteq> Some (VInt 0)))
     (task_history task_id s0 (task_run e file_path filename task_id loaded s0))"
    by (simp add: list_all_iff rec_ok_def download_rule_def completed_def has_field_def)
  with h(1) show ?thesis by simp
qed

text \<open>
  C10: in every record of a task's history, \<open>finished_at\<close> is there if and only if the
  status is \<open>error\<close>, or \<open>done\<close> with \<open>total\<close> not zero (the normal completion). So a
  record with status \<open>canceled\<close>, or \<open>done\<close> by the zero-rows path, never has it.
\<close>

theorem finished_at_iff_error_or_completed:
  "task_history task_id s0 (task_run e file_path filename task_id loaded s0) \<noteq> [] \<and>
   list_all
     (\<lambda>st. (map_of st ''finished_at'' \<noteq> None) =
            (map_of st ''status'' = Some ERROR \<or>
             map_of st ''status'' = Some DONE \<and> map_of st ''total'' \<noteq> Some (VInt 0)))
     (task_history task_id s0 (task_run e file_path filename task_id loaded s0))"
proof -
  note h = hist_ok_history [OF task_run_hist_ok [of task_id s0 e file_path filename loaded]]
  from h(2) have "list_all
     (\<lambda>st. (map_of st ''finished_at'' \<noteq> None) =
            (map_of st ''status'' = Some ERROR \<or>
             map_of st ''status'' = Some DONE \<and> map_of st ''total'' \<noteq> Some (VInt 0)))
     (task_history task_id s0 (task_run e file_path filename task_id loaded s0))"
    by (simp add: list_all_iff rec_ok_def finished_rule_def completed_def has_field_def)
  with h(1) show ?thesis by simp
qed

lemma header_only_title: "find_title (header header_only) = Some 1"
  by (simp add: header_def header_only_def ascii_def strip_def isspace_def lower_def)

lemma header_only_rows: "rows_to_tr header_only 1 = []"
  by (simp add: rows_to_tr_def header_only_def)

text \<open>
  C1 as stated fails: the task of a sheet that has only the header row ends with status
  \<open>done\<close> and without \<open>download_filename\<close>.
\<close>

theorem done_without_download_filename:
  "map_of (record_of ''t1'' (task_run (always (Transport_error [])) (ascii ''/tmp/up/in.xlsx'')
      (ascii ''in.xlsx'') ''t1'' (Inr (Some header_only)) empty_world)) ''status'' = Some DONE \<and>
   map_of (record_of ''t1'' (task_run (always (Transport_error [])) (ascii ''/tmp/up/in.xlsx'')
      (ascii ''in.xlsx'') ''t1'' (Inr (Some header_only)) empty_world)) ''download_filename'' = None"
  using zero_rows_run(1) [where e = "always (Transport_error [])"
        and file_path = "ascii ''/tmp/up/in.xlsx''" and filename = "ascii ''in.xlsx''"
        and task_id = "''t1''" and ?s0.0 = empty_world, OF header_only_title header_only_rows]
  by (simp add: summary_def has_field_def)

text \<open>
  C7: for every sheet with a Title column and no row to translate, the worker returns and
  leaves the task with status \<open>done\<close>, \<open>percent\<close> 100 and the message of line 83; the trace
  of the run has no \<open>wb.save\<close>, so no output file is produced.
\<close>

theorem zero_rows_done_without_output:
  assumes "find_title (header w0) = Some c" and "rows_to_tr w0 c = []"
  shows "map_of (record_of task_id (task_run e file_path filename task_id (Inr (Some w0)) s0))
           ''status'' = Some DONE \<and>
         map_of (record_of task_id (task_run e file_path filename task_id (Inr (Some w0)) s0))
           ''percent'' = Some (VInt 100) \<and>
         map_of (record_of task_id (task_run e file_path filename task_id (Inr (Some w0)) s0))
           ''message'' = Some (VStr MSG_NOTHING) \<and>
         filter is_save
           (drop (length (trace s0))
              (trace (task_run e file_path filename task_id (Inr (Some w0)) s0))) = []"
proof -
  note z = zero_rows_run [where e = e and file_path = file_path and filename = filename
      and task_id = task_id and ?s0.0 = s0, OF assms]
  from z(3) obtain evs where
    "trace (task_run e file_path filename task_id (Inr (Some w0)) s0) = trace s0 @ evs"
    "filter is_save evs = []" by blast
  then have "filter is_save (drop (length (trace s0))
              (trace (task_run e file_path filename task_id (Inr (Some w0)) s0))) = []" by simp
  with z(1,2) show ?thesis by (simp add: summary_def)
qed

theorem zero_rows_done_without_output_witness:
  "map_of (record_of ''t1'' (task_run (always (Response 200 None)) (ascii ''/tmp/up/in.xlsx'')
      (ascii ''in.xlsx'') ''t1'' (Inr (Some header_only)) empty_world)) ''status'' = Some DONE \<and>
   map_of (record_of ''t1'' (task_run (always (Response 200 None)) (ascii ''/tmp/up/in.xlsx'')
      (ascii ''in.xlsx'') ''t1'' (Inr (Some header_only)) empty_world)) ''percent'' = Some (VInt 100) \<and>
   map_of (record_of ''t1'' (task_run (always (Response 200 None)) (ascii ''/tmp/up/in.xlsx'')
      (ascii ''in.xlsx'') ''t1'' (Inr (Some header_only)) empty_world)) ''message'' =
        Some (VStr MSG_NOTHING) \<and>
   filter is_save (trace (task_run (always (Response 200 None)) (ascii ''/tmp/up/in.xlsx'')
      (ascii ''in.xlsx'') ''t1'' (Inr (Some header_only)) empty_world)) = []"
  using zero_rows_done_without_output [where e = "always (Response 200 None)"
        and file_path = "ascii ''/tmp/up/in.xlsx''" and filename = "ascii ''in.xlsx''"
        and task_id = "''t1''" and ?s0.0 = empty_world, OF header_only_title header_only_rows]
  by (simp add: empty_world_def)

section \<open>Cancellation\<close>

lemma filter_drop_le: "length (filter P (drop n xs)) \<le> length (filter P xs)"
proof -
  have "length (filter P (take n xs @ drop n xs)) = length (filter P xs)" by simp
  then show ?thesis by (simp del: append_take_drop_id)
qed

lemma after_append:
  "length (filter P (drop k (tr @ evs))) \<le>
     length (filter P (drop k tr)) + length (filter P evs)"
  using filter_drop_le [of P "k - length tr" evs] by simp

lemma translate_text_loop_trace:
  "\<exists>evs. snd (translate_text_loop e q as tr) = tr @ evs \<and>
     filter is_cell_write evs = [] \<and> filter is_save evs = []"
proof (induction as arbitrary: tr)
  case Nil
  then show ?case by simp
next
  case (Cons a as)
  from Cons [of "tr @ [Http_get q, Sleep (2 ^ a + 5 / 10)]"] obtain evs where
    e: "snd (translate_text_loop e q as (tr @ [Http_get q, Sleep (2 ^ a + 5 / 10)])) =
       (tr @ [Http_get q, Sleep (2 ^ a + 5 / 10)]) @ evs"
      "filter is_cell_write evs = []" "filter is_save evs = []" by blast
  show ?case
  proof (cases "attempt_body (endpoint e (length tr) q)")
    case (Inl x)
    then show ?thesis
      using e by (cases "a = 3") auto
  next
    case (Inr y)
    then show ?thesis using e by (cases y) auto
  qed
qed

lemma translate_text_trace:
  "\<exists>evs. snd (translate_text e q tr) = tr @ evs \<and>
     filter is_cell_write evs = [] \<and> filter is_save evs = []"
  using translate_text_loop_trace [of e "take 5000 q" "[1..<4]" tr]
  by (simp add: translate_text_def)

lemma for_rows_trace:
  assumes "for_rows e task_id tc ii T start batch_start xs w s = (r, w', s')"
    and "record_of task_id s \<noteq> []"
  shows "record_of task_id s' \<noteq> [] \<and>
         (\<exists>evs. trace s' = trace s @ evs \<and>
            length (filter is_cell_write evs) \<le> length xs \<and> filter is_save evs = [])"
  using assms
proof (induction xs arbitrary: w s)
  case Nil
  then show ?case by simp
next
  case (Cons x xs)
  obtain i row where x: "x = (i, row)" by (cases x)
  obtain res tr where tt: "translate_text e (str_value (cells w row tc)) (trace s) = (res, tr)"
    by (cases "translate_text e (str_value (cells w row tc)) (trace s)")
  from translate_text_trace [of e "str_value (cells w row tc)" "trace s"] tt obtain ev1 where
    ev1: "tr = trace s @ ev1" "filter is_cell_write ev1 = []" "filter is_save ev1 = []"
    by auto
  show ?case
  proof (cases res)
    case (Inl y)
    with tt x Cons.prems have "s' = s\<lparr>trace := tr\<rparr>" by (simp add: Let_def)
    with ev1 Cons.prems(2) show ?thesis by auto
  next
    case (Inr t)
    define s1 where "s1 = s\<lparr>trace := tr @ [Cell_write row ii t]\<rparr>"
    show ?thesis
    proof (cases "T = 0")
      case True
      with tt x Inr Cons.prems have "s' = s1" by (simp add: Let_def s1_def)
      with ev1 Cons.prems(2) show ?thesis by (auto simp: s1_def)
    next
      case False
      from tt x Inr False Cons.prems(1)
      have "\<exists>kv. for_rows e task_id tc ii T start batch_start xs
          (set_cell row ii (CStr t) w) (update_task e task_id kv s1) = (r, w', s')"
        by (auto simp: Let_def s1_def)
      then obtain kv where run0: "for_rows e task_id tc ii T start batch_start xs
          (set_cell row ii (CStr t) w) (update_task e task_id kv s1) = (r, w', s')" by blast
      define s2 where "s2 = update_task e task_id kv s1"
      from run0 have run: "for_rows e task_id tc ii T start batch_start xs
          (set_cell row ii (CStr t) w) s2 = (r, w', s')" by (simp add: s2_def)
      have ne: "record_of task_id s2 \<noteq> []"
        using Cons.prems(2) by (simp add: s2_def s1_def update_task_nonempty)
      from Cons.IH [OF run ne] obtain evs where
        evs: "record_of task_id s' \<noteq> []" "trace s' = trace s2 @ evs"
        "length (filter is_cell_write evs) \<le> length xs" "filter is_save evs = []" by blast
      have "trace s' = trace s @ (ev1 @ [Cell_write row ii t, Registry_update task_id kv] @ evs)"
        using evs(2) ev1(1) by (simp add: s2_def s1_def)
      moreover have "length (filter is_cell_write
          (ev1 @ [Cell_write row ii t, Registry_update task_id kv] @ evs)) \<le> length (x # xs)"
        using evs(3) ev1(2) by simp
      moreover have "filter is_save
          (ev1 @ [Cell_write row ii t, Registry_update task_id kv] @ evs) = []"
        using evs(4) ev1(3) by simp
      ultimately show ?thesis using evs(1) by blast
    qed
  qed
qed

lemma flag_visible:
  assumes "record_of task_id s \<noteq> []" "cancel_due e s"
  shows "get_truthy (get_state task_id (visible e task_id s)) ''cancel_requested''"
  using assms
  by (simp add: record_visible get_truthy_def dict_update_map_of)

lemma visible_record_nonempty:
  "get_state task_id (visible e task_id s) \<noteq> [] \<Longrightarrow> record_of task_id s \<noteq> []"
  by (auto simp: record_visible split: if_splits)

lemma canceled_at_check:
  assumes f: "get_truthy (get_state task_id (visible e task_id s)) ''cancel_requested''"
  defines "s' \<equiv> update_task e task_id [(''status'', CANCELED), (''message'', VStr MSG_CANCELED)]
           (s\<lparr>trace := trace s @ [Registry_get task_id]\<rparr>)"
  shows "for_batches e task_id tc ii rows T start out (batch_start # rest) w s =
           (Inr Return, w, s')"
    and "trace s' = trace s @ [Registry_get task_id,
           Registry_update task_id [(''status'', CANCELED), (''message'', VStr MSG_CANCELED)]]"
    and "map_of (record_of task_id s') ''status'' = Some CANCELED"
proof -
  show "for_batches e task_id tc ii rows T start out (batch_start # rest) w s =
           (Inr Return, w, s')"
    using f by (simp add: s'_def read_task_def)
  show "trace s' = trace s @ [Registry_get task_id,
           Registry_update task_id [(''status'', CANCELED), (''message'', VStr MSG_CANCELED)]]"
    by (simp add: s'_def)
  from f have "get_state task_id (visible e task_id s) \<noteq> []"
    by (auto simp: get_truthy_def)
  then have "record_of task_id s \<noteq> []" by (rule visible_record_nonempty)
  then show "map_of (record_of task_id s') ''status'' = Some CANCELED"
    by (simp add: s'_def map_of_record_update_task)
qed

lemma count_after_append:
  "count_after P k (tr @ evs) \<le> count_after P k tr + length (filter P evs)"
  unfolding count_after_def by (rule after_append)

lemma count_after_short:
  "length tr \<le> k \<Longrightarrow> count_after P k (tr @ evs) \<le> length (filter P evs)"
  using count_after_append [of P k tr evs] by (simp add: count_after_def)

lemma count_after_others:
  assumes "filter P evs = []"
  shows "count_after P k (tr @ evs) = count_after P k tr"
proof -
  have "length (filter P (drop (k - length tr) evs)) \<le> length (filter P evs)"
    by (rule filter_drop_le)
  with assms show ?thesis by (simp add: count_after_def)
qed

lemma count_after_registry_update [simp]:
  "count_after is_cell_write k (tr @ [Registry_update t kv]) = count_after is_cell_write k tr"
  "count_after is_save k (tr @ [Registry_update t kv]) = count_after is_save k tr"
  by (simp_all add: count_after_others)

lemma for_batches_after_cancel:
  assumes "record_of task_id s \<noteq> []" "cancel_at e = Some k"
    "for_batches e task_id tc ii rows T start out bs w s = (r, w', s')"
    "count_after is_cell_write k (trace s) \<le> BATCH" "count_after is_save k (trace s) \<le> 1"
  shows "record_of task_id s' \<noteq> [] \<and> count_after is_cell_write k (trace s') \<le> BATCH \<and>
         count_after is_save k (trace s') \<le> 1"
  using assms
proof (induction bs arbitrary: w s)
  case Nil
  then show ?case by simp
next
  case (Cons b bs)
  define s1 where "s1 = s\<lparr>trace := trace s @ [Registry_get task_id]\<rparr>"
  have rt: "read_task e task_id s = (get_state task_id (visible e task_id s), s1)"
    by (simp add: read_task_def s1_def)
  have ne1: "record_of task_id s1 \<noteq> []" using Cons.prems(1) by (simp add: s1_def)
  show ?case
  proof (cases "get_truthy (get_state task_id (visible e task_id s)) ''cancel_requested''")
    case True
    with Cons.prems(3) rt have
      "s' = update_task e task_id [(''status'', CANCELED), (''message'', VStr MSG_CANCELED)] s1"
      by simp
    with Cons.prems(4,5) ne1 show ?thesis
      by (simp add: update_task_nonempty s1_def count_after_others)
  next
    case False
    with flag_visible [OF Cons.prems(1), of e] have "\<not> cancel_due e s" by blast
    with Cons.prems(2) have short: "length (trace s) \<le> k" by (simp add: cancel_due_def)
    define batch_rows where "batch_rows = take BATCH (drop b rows)"
    obtain r2 w2 s2 where fr: "for_rows e task_id tc ii T start b
        (enumerate 1 batch_rows) w s1 = (r2, w2, s2)"
      by (cases "for_rows e task_id tc ii T start b (enumerate 1 batch_rows) w s1")
    from for_rows_trace [OF fr ne1] obtain evs where
      evs: "record_of task_id s2 \<noteq> []" "trace s2 = trace s1 @ evs"
        "length (filter is_cell_write evs) \<le> length (enumerate 1 batch_rows)"
        "filter is_save evs = []" by blast
    have tr2: "trace s2 = trace s @ (Registry_get task_id # evs)"
      using evs(2) by (simp add: s1_def)
    have "length (filter is_cell_write (Registry_get task_id # evs)) \<le> BATCH"
      using evs(3) by (simp add: batch_rows_def)
    with count_after_short [OF short, of is_cell_write "Registry_get task_id # evs"]
    have cw2: "count_after is_cell_write k (trace s2) \<le> BATCH" by (simp add: tr2)
    from count_after_short [OF short, of is_save "Registry_get task_id # evs"] evs(4)
    have sv2: "count_after is_save k (trace s2) = 0" by (simp add: tr2)
    show ?thesis
    proof (cases r2)
      case (Some x)
      with Cons.prems(3) rt False fr have "s' = s2" by (simp add: batch_rows_def Let_def)
      with evs(1) cw2 sv2 show ?thesis by simp
    next
      case None
      show ?thesis
      proof (cases "save_raises e (length (trace s2))")
        case (Some x)
        with Cons.prems(3) rt False fr None
        have s': "s' = s2\<lparr>trace := trace s2 @ [Save out]\<rparr>"
          by (simp add: batch_rows_def Let_def)
        from count_after_append [of is_save k "trace s2" "[Save out]"] sv2
        have "count_after is_save k (trace s') \<le> 1" by (simp add: s')
        moreover have "count_after is_cell_write k (trace s') \<le> BATCH"
          using cw2 by (simp add: s' count_after_others)
        ultimately show ?thesis using evs(1) by (simp add: s')
      next
        case N2: None
        define s3 where "s3 = s2\<lparr>trace := trace s2 @ [Save out, Sleep 2]\<rparr>"
        from Cons.prems(3) rt False fr None N2
        have run: "for_batches e task_id tc ii rows T start out bs w2 s3 = (r, w', s')"
          by (simp add: batch_rows_def Let_def s3_def)
        from count_after_append [of is_save k "trace s2" "[Save out, Sleep 2]"] sv2
        have sv3: "count_after is_save k (trace s3) \<le> 1" by (simp add: s3_def)
        have cw3: "count_after is_cell_write k (trace s3) \<le> BATCH"
          using cw2 by (simp add: s3_def count_after_others)
        have ne3: "record_of task_id s3 \<noteq> []" using evs(1) by (simp add: s3_def)
        from Cons.IH [OF ne3 Cons.prems(2) run cw3 sv3] show ?thesis .
      qed
    qed
  qed
qed

lemma BATCH_pos: "1 \<le> BATCH"
  by (simp add: BATCH_def)

lemma try_block_after_cancel:
  assumes ne: "record_of task_id s \<noteq> []" and ca: "cancel_at e = Some k"
    and run: "try_block e file_path task_id loaded s = (r, s')"
    and cw: "count_after is_cell_write k (trace s) = 0"
    and sv: "count_after is_save k (trace s) = 0"
  shows "record_of task_id s' \<noteq> [] \<and> count_after is_cell_write k (trace s') \<le> BATCH \<and>
         count_after is_save k (trace s') \<le> 1"
proof -
  define sl where "sl = s\<lparr>trace := trace s @ [Load_workbook file_path]\<rparr>"
  have hl: "record_of task_id sl \<noteq> []" "count_after is_cell_write k (trace sl) = 0"
    "count_after is_save k (trace sl) = 0"
    using ne cw sv by (simp_all add: sl_def count_after_others)
  have early: "s' = sl \<Longrightarrow> ?thesis" using hl by simp
  show ?thesis
  proof (cases loaded)
    case (Inl x)
    with run have "s' = sl" by (simp add: try_block_def sl_def)
    then show ?thesis by (rule early)
  next
    case (Inr wo)
    show ?thesis
    proof (cases wo)
      case None
      with Inr run have "s' = sl" by (simp add: try_block_def sl_def)
      then show ?thesis by (rule early)
    next
      case (Some w0)
      show ?thesis
      proof (cases "find_title (header w0)")
        case None
        with Inr Some run have "s' = sl" by (simp add: try_block_def sl_def)
        then show ?thesis by (rule early)
      next
        case (Some c)
        note c = Some
        show ?thesis
        proof (cases "c = 0")
          case True
          with Inr \<open>wo = Some w0\<close> c run have "s' = sl" by (simp add: try_block_def sl_def)
          then show ?thesis by (rule early)
        next
          case False
          define w1 where "w1 = (if cells w0 1 (c + 1) \<noteq> CStr ZH
             then set_cell 1 (c + 1) (CStr ZH) (insert_cols (c + 1) w0) else w0)"
          define s1 where "s1 = (if cells w0 1 (c + 1) \<noteq> CStr ZH
             then sl\<lparr>trace := trace sl @ [Insert_cols (c + 1), Cell_write 1 (c + 1) ZH]\<rparr>
             else sl)"
          define rows where "rows = rows_to_tr w1 c"
          define T where "T = length rows"
          define s2 where "s2 = update_task e task_id
               [(''total'', VInt (int T)), (''current'', VInt 0)] s1"
          have ne1: "record_of task_id s1 \<noteq> []" using hl(1) by (simp add: s1_def)
          have cw1: "count_after is_cell_write k (trace s1) \<le> 1"
            using count_after_append [of is_cell_write k "trace sl"
                "[Insert_cols (c + 1), Cell_write 1 (c + 1) ZH]"] hl(2)
            by (simp add: s1_def)
          have sv1: "count_after is_save k (trace s1) = 0"
            using hl(3) by (simp add: s1_def count_after_others)
          have h2: "record_of task_id s2 \<noteq> []" "count_after is_cell_write k (trace s2) \<le> BATCH"
            "count_after is_save k (trace s2) \<le> 1"
            using ne1 cw1 sv1 BATCH_pos by (simp_all add: s2_def update_task_nonempty)
          show ?thesis
          proof (cases "T = 0")
            case True
            have "s' = update_task e task_id
                [(''status'', DONE), (''percent'', VInt 100), (''message'', VStr MSG_NOTHING)] s2"
              using run Inr \<open>wo = Some w0\<close> c False True
              by (auto simp: try_block_def sl_def [symmetric] Let_def w1_def s1_def rows_def
                  T_def s2_def split: if_splits)
            with h2 show ?thesis by (simp add: update_task_nonempty)
          next
            case Tpos: False
            define start where "start = clock e (length (trace s2))"
            define out where "out = path_join (ascii ''/tmp'')
                (splitext_root (basename file_path) @ SUFFIX)"
            obtain r3 w3 s3 where fb: "for_batches e task_id c (c + 1) rows T start out
                (range_step T BATCH) w1 s2 = (r3, w3, s3)"
              by (cases "for_batches e task_id c (c + 1) rows T start out
                (range_step T BATCH) w1 s2")
            from for_batches_after_cancel [OF h2(1) ca fb h2(2,3)]
            have h3: "record_of task_id s3 \<noteq> []" "count_after is_cell_write k (trace s3) \<le> BATCH"
              "count_after is_save k (trace s3) \<le> 1" by simp_all
            note facts = run Inr \<open>wo = Some w0\<close> c False Tpos fb
            note defs = try_block_def sl_def Let_def w1_def s1_def rows_def
                  T_def s2_def start_def out_def
            have "s' = s3 \<or> (\<exists>kv. s' = update_task e task_id kv s3)"
            proof (cases r3)
              case (Inl x)
              with facts show ?thesis by (auto simp: defs split: if_splits)
            next
              case (Inr f)
              with facts show ?thesis by (cases f) (auto simp: defs split: if_splits)
            qed
            with h3 show ?thesis by (auto simp: update_task_nonempty)
          qed
        qed
      qed
    qed
  qed
qed

lemma task_run_after_cancel:
  assumes ca: "cancel_at e = Some k" and k: "length (trace s0) \<le> k"
  shows "count_after is_cell_write k
           (trace (task_run e file_path filename task_id loaded s0)) \<le> BATCH \<and>
         count_after is_save k (trace (task_run e file_path filename task_id loaded s0)) \<le> 1"
proof -
  define sa where "sa = start_background_task file_path filename task_id s0"
  define sb where "sb = update_task e task_id
                 [(''status'', RUNNING), (''message'', VStr MSG_READING),
                  (''percent'', VInt 0), (''started_at'', VFloat (clock e (length (trace sa))))] sa"
  have nea: "record_of task_id sa \<noteq> []"
    using hist_ok_start [of task_id s0 file_path filename] by (simp add: hist_ok_def sa_def)
  have tra: "trace sa = trace s0 @ [Registry_create task_id (initial_record file_path filename)]"
    by (simp add: sa_def start_background_task_def Let_def)
  have z0: "count_after P k (trace s0) = 0" for P using k by (simp add: count_after_def)
  have hb: "record_of task_id sb \<noteq> []" "count_after is_cell_write k (trace sb) = 0"
    "count_after is_save k (trace sb) = 0"
    using nea z0 by (simp_all add: sb_def update_task_nonempty tra count_after_others)
  obtain r s2 where tb: "try_block e file_path task_id loaded sb = (r, s2)"
    by (cases "try_block e file_path task_id loaded sb")
  from try_block_after_cancel [OF hb(1) ca tb hb(2,3)]
  have h2: "record_of task_id s2 \<noteq> []" "count_after is_cell_write k (trace s2) \<le> BATCH"
    "count_after is_save k (trace s2) \<le> 1" by simp_all
  have "\<exists>s3. task_run e file_path filename task_id loaded s0 = finally_block e file_path task_id s3
      \<and> count_after is_cell_write k (trace s3) \<le> BATCH \<and> count_after is_save k (trace s3) \<le> 1"
  proof (cases r)
    case (Inl x)
    define s3 where "s3 = update_task e task_id
        [(''status'', ERROR), (''message'', VStr (str_exn x)),
         (''finished_at'', VFloat (clock e (length (trace s2))))] s2"
    from tb Inl have "task_run e file_path filename task_id loaded s0 =
        finally_block e file_path task_id s3"
      by (simp add: task_run_def run_task_def sa_def [symmetric] sb_def [symmetric] s3_def)
    moreover have "count_after is_cell_write k (trace s3) \<le> BATCH"
      "count_after is_save k (trace s3) \<le> 1"
      using h2 by (simp_all add: s3_def)
    ultimately show ?thesis by blast
  next
    case (Inr f)
    with tb have "task_run e file_path filename task_id loaded s0 =
        finally_block e file_path task_id s2"
      by (simp add: task_run_def run_task_def sa_def [symmetric] sb_def [symmetric])
    with h2 show ?thesis by blast
  qed
  then obtain s3 where s3: "task_run e file_path filename task_id loaded s0 =
      finally_block e file_path task_id s3" "count_after is_cell_write k (trace s3) \<le> BATCH"
      "count_after is_save k (trace s3) \<le> 1" by blast
  from finally_block_trace [of e file_path task_id s3] obtain fe where
    fe: "trace (finally_block e file_path task_id s3) = trace s3 @ fe"
      "filter is_save fe = []" "filter is_cell_write fe = []" by blast
  with s3 show ?thesis by (simp add: count_after_others)
qed

text \<open>
  C4: every pass of the batch loop starts with the check of \<open>cancel_requested\<close>. If the
  flag is set then, the loop returns at once with the status \<open>canceled\<close>, and all it added
  to the trace is the read and that registry update: no row is translated and nothing is
  saved. A cancel request that is due makes the flag set at the check of a task that has a
  record. And in the whole run of a task, from the moment \<open>k\<close> a cancel request is made (at
  or after the task's creation), at most \<open>BATCH\<close> (10) cells are written and the output
  file is saved at most once more.
\<close>

theorem cancel_checked_before_each_batch:
  "(get_truthy (get_state task_id (visible e task_id s)) ''cancel_requested'' \<longrightarrow>
      (\<exists>s'. for_batches e task_id tc ii rows T start out (batch_start # rest) w s =
               (Inr Return, w, s') \<and>
            trace s' = trace s @ [Registry_get task_id,
              Registry_update task_id [(''status'', CANCELED), (''message'', VStr MSG_CANCELED)]] \<and>
            map_of (record_of task_id s') ''status'' = Some CANCELED)) \<and>
   (record_of task_id s \<noteq> [] \<and> cancel_due e s \<longrightarrow>
      get_truthy (get_state task_id (visible e task_id s)) ''cancel_requested'') \<and>
   (cancel_at e = Some k \<and> length (trace s0) \<le> k \<longrightarrow>
      count_after is_cell_write k
        (trace (task_run e file_path filename task_id loaded s0)) \<le> BATCH \<and>
      count_after is_save k (trace (task_run e file_path filename task_id loaded s0)) \<le> 1)"
proof (intro conjI impI)
  assume f: "get_truthy (get_state task_id (visible e task_id s)) ''cancel_requested''"
  from canceled_at_check [OF f]
  show "\<exists>s'. for_batches e task_id tc ii rows T start out (batch_start # rest) w s =
               (Inr Return, w, s') \<and>
            trace s' = trace s @ [Registry_get task_id,
              Registry_update task_id [(''status'', CANCELED), (''message'', VStr MSG_CANCELED)]] \<and>
            map_of (record_of task_id s') ''status'' = Some CANCELED"
    by blast
next
  assume "record_of task_id s \<noteq> [] \<and> cancel_due e s"
  then show "get_truthy (get_state task_id (visible e task_id s)) ''cancel_requested''"
    using flag_visible by blast
next
  assume a: "cancel_at e = Some k \<and> length (trace s0) \<le> k"
  then show "count_after is_cell_write k
        (trace (task_run e file_path filename task_id loaded s0)) \<le> BATCH"
    using task_run_after_cancel by blast
  from a show
    "count_after is_save k (trace (task_run e file_path filename task_id loaded s0)) \<le> 1"
    using task_run_after_cancel by blast
qed

theorem cancel_checked_before_each_batch_witness:
  "(\<exists>s'. for_batches (always (Response 200 None)) ''t1'' 1 2 [2] 1 0 [] (0 # [])
             blank_title_row cancel_seen = (Inr Return, blank_title_row, s') \<and>
          trace s' = trace cancel_seen @ [Registry_get ''t1'',
            Registry_update ''t1'' [(''status'', CANCELED), (''message'', VStr MSG_CANCELED)]] \<and>
          map_of (record_of ''t1'' s') ''status'' = Some CANCELED) \<and>
   get_truthy (get_state ''t1''
     (visible ((always (Response 200 None))\<lparr>cancel_at := Some 0\<rparr>) ''t1'' cancel_seen))
     ''cancel_requested'' \<and>
   count_after is_cell_write 7
     (trace (task_run ((always (Response 200 None))\<lparr>cancel_at := Some 7\<rparr>)
        (ascii ''/tmp/up/in.xlsx'') (ascii ''in.xlsx'') ''t1'' (Inr (Some blank_title_row))
        empty_world)) \<le> BATCH \<and>
   count_after is_save 7
     (trace (task_run ((always (Response 200 None))\<lparr>cancel_at := Some 7\<rparr>)
        (ascii ''/tmp/up/in.xlsx'') (ascii ''in.xlsx'') ''t1'' (Inr (Some blank_title_row))
        empty_world)) \<le> 1"
proof -
  have h1: "get_truthy (get_state ''t1'' (visible (always (Response 200 None)) ''t1'' cancel_seen))
      ''cancel_requested''"
    by (simp add: visible_def cancel_due_def always_def cancel_seen_def get_state_def
        get_truthy_def)
  have h2: "record_of ''t1'' cancel_seen \<noteq> [] \<and>
      cancel_due ((always (Response 200 None))\<lparr>cancel_at := Some 0\<rparr>) cancel_seen"
    by (simp add: record_of_def cancel_seen_def get_state_def cancel_due_def)
  have h3: "cancel_at ((always (Response 200 None))\<lparr>cancel_at := Some 7\<rparr>) = Some 7 \<and>
      length (trace empty_world) \<le> 7"
    by (simp add: empty_world_def)
  from cancel_checked_before_each_batch [where e = "always (Response 200 None)"
      and task_id = "''t1''" and s = cancel_seen and tc = 1 and ii = 2 and rows = "[2]"
      and T = 1 and start = 0 and out = "[]" and batch_start = 0 and rest = "[]"
      and w = blank_title_row] h1
  have a: "\<exists>s'. for_batches (always (Response 200 None)) ''t1'' 1 2 [2] 1 0 [] (0 # [])
             blank_title_row cancel_seen = (Inr Return, blank_title_row, s') \<and>
          trace s' = trace cancel_seen @ [Registry_get ''t1'',
            Registry_update ''t1'' [(''status'', CANCELED), (''message'', VStr MSG_CANCELED)]] \<and>
          map_of (record_of ''t1'' s') ''status'' = Some CANCELED"
    by blast
  from cancel_checked_before_each_batch [where e = "(always (Response 200 None))\<lparr>cancel_at := Some 0\<rparr>"
      and task_id = "''t1''" and s = cancel_seen] h2
  have b: "get_truthy (get_state ''t1''
     (visible ((always (Response 200 None))\<lparr>cancel_at := Some 0\<rparr>) ''t1'' cancel_seen))
     ''cancel_requested''"
    by blast
  from cancel_checked_before_each_batch [where e = "(always (Response 200 None))\<lparr>cancel_at := Some 7\<rparr>"
      and k = 7 and ?s0.0 = empty_world and task_id = "''t1''"
      and file_path = "ascii ''/tmp/up/in.xlsx''" and filename = "ascii ''in.xlsx''"
      and loaded = "Inr (Some blank_title_row)"] h3
  have c: "count_after is_cell_write 7
     (trace (task_run ((always (Response 200 None))\<lparr>cancel_at := Some 7\<rparr>)
        (ascii ''/tmp/up/in.xlsx'') (ascii ''in.xlsx'') ''t1'' (Inr (Some blank_title_row))
        empty_world)) \<le> BATCH \<and>
   count_after is_save 7
     (trace (task_run ((always (Response 200 None))\<lparr>cancel_at := Some 7\<rparr>)
        (ascii ''/tmp/up/in.xlsx'') (ascii ''in.xlsx'') ''t1'' (Inr (Some blank_title_row))
        empty_world)) \<le> 1"
    by blast
  from a b c show ?thesis by blast
qed

section \<open>The rows that are counted\<close>

lemma total_update_task:
  assumes "map_of (rev kv) ''total'' = None"
  shows "map_of (record_of task_id (update_task e task_id kv s)) ''total'' =
         map_of (record_of task_id s) ''total''"
proof (cases "record_of task_id s = []")
  case True
  then have "get_state task_id (visible e task_id s) = []" by (simp add: record_visible)
  then have "record_of task_id (update_task e task_id kv s) = []"
    by (simp add: record_of_def update_task_def Let_def get_state_safe_update_empty)
  with True show ?thesis by simp
next
  case False
  then show ?thesis
    using assms
    by (simp add: map_of_record_update_task record_visible dict_update_map_of)
qed

lemma for_rows_total:
  assumes "for_rows e task_id tc ii T start batch_start xs w s = (r, w', s')"
  shows "map_of (record_of task_id s') ''total'' = map_of (record_of task_id s) ''total''"
  using assms
proof (induction xs arbitrary: w s)
  case Nil
  then show ?case by simp
next
  case (Cons x xs)
  obtain i row where x: "x = (i, row)" by (cases x)
  obtain res tr where tt: "translate_text e (str_value (cells w row tc)) (trace s) = (res, tr)"
    by (cases "translate_text e (str_value (cells w row tc)) (trace s)")
  show ?case
  proof (cases res)
    case (Inl y)
    with tt x Cons.prems have "s' = s\<lparr>trace := tr\<rparr>" by (simp add: Let_def)
    then show ?thesis by simp
  next
    case (Inr t)
    define s1 where "s1 = s\<lparr>trace := tr @ [Cell_write row ii t]\<rparr>"
    show ?thesis
    proof (cases "T = 0")
      case True
      with tt x Inr Cons.prems have "s' = s1" by (simp add: Let_def s1_def)
      then show ?thesis by (simp add: s1_def)
    next
      case False
      from tt x Inr False Cons.prems(1)
      have "\<exists>kv. map_of (rev kv) ''total'' = None \<and>
          for_rows e task_id tc ii T start batch_start xs
          (set_cell row ii (CStr t) w) (update_task e task_id kv s1) = (r, w', s')"
        apply (simp add: Let_def s1_def)
        apply (rule exI, rule conjI)
         prefer 2
         apply assumption
        apply simp
        done
      then obtain kv where kv: "map_of (rev kv) ''total'' = None"
        and run: "for_rows e task_id tc ii T start batch_start xs
          (set_cell row ii (CStr t) w) (update_task e task_id kv s1) = (r, w', s')" by blast
      from Cons.IH [OF run] total_update_task [OF kv, of task_id e s1]
      show ?thesis by (simp add: s1_def)
    qed
  qed
qed

lemma for_batches_total:
  assumes "for_batches e task_id tc ii rows T start out bs w s = (r, w', s')"
  shows "map_of (record_of task_id s') ''total'' = map_of (record_of task_id s) ''total''"
  using assms
proof (induction bs arbitrary: w s)
  case Nil
  then show ?case by simp
next
  case (Cons b bs)
  define s1 where "s1 = s\<lparr>trace := trace s @ [Registry_get task_id]\<rparr>"
  have rt: "read_task e task_id s = (get_state task_id (visible e task_id s), s1)"
    by (simp add: read_task_def s1_def)
  show ?case
  proof (cases "get_truthy (get_state task_id (visible e task_id s)) ''cancel_requested''")
    case True
    with Cons.prems rt have
      "s' = update_task e task_id [(''status'', CANCELED), (''message'', VStr MSG_CANCELED)] s1"
      by simp
    then show ?thesis by (simp add: total_update_task s1_def)
  next
    case False
    define batch_rows where "batch_rows = take BATCH (drop b rows)"
    obtain r2 w2 s2 where fr: "for_rows e task_id tc ii T start b
        (enumerate 1 batch_rows) w s1 = (r2, w2, s2)"
      by (cases "for_rows e task_id tc ii T start b (enumerate 1 batch_rows) w s1")
    from for_rows_total [OF fr]
    have t2: "map_of (record_of task_id s2) ''total'' = map_of (record_of task_id s) ''total''"
      by (simp add: s1_def)
    show ?thesis
    proof (cases r2)
      case (Some x)
      with Cons.prems rt False fr have "s' = s2" by (simp add: batch_rows_def Let_def)
      with t2 show ?thesis by simp
    next
      case None
      show ?thesis
      proof (cases "save_raises e (length (trace s2))")
        case (Some x)
        with Cons.prems rt False fr None
        have "s' = s2\<lparr>trace := trace s2 @ [Save out]\<rparr>"
          by (simp add: batch_rows_def Let_def)
        with t2 show ?thesis by simp
      next
        case N2: None
        from Cons.prems rt False fr None N2
        have run: "for_batches e task_id tc ii rows T start out bs w2
            (s2\<lparr>trace := trace s2 @ [Save out, Sleep 2]\<rparr>) = (r, w', s')"
          by (simp add: batch_rows_def Let_def)
        from Cons.IH [OF run] t2 show ?thesis by simp
      qed
    qed
  qed
qed

lemma try_block_total:
  assumes ne: "record_of task_id s \<noteq> []"
    and ft: "find_title (header w0) = Some c"
    and run: "try_block e file_path task_id (Inr (Some w0)) s = (r, s')"
  shows "map_of (record_of task_id s') ''total'' = Some (VInt (int (length (rows_to_tr w0 c))))"
proof -
  from ft have c0: "c \<noteq> 0" using find_title_pos by blast
  define sl where "sl = s\<lparr>trace := trace s @ [Load_workbook file_path]\<rparr>"
  define w1 where "w1 = (if cells w0 1 (c + 1) \<noteq> CStr ZH
     then set_cell 1 (c + 1) (CStr ZH) (insert_cols (c + 1) w0) else w0)"
  define s1 where "s1 = (if cells w0 1 (c + 1) \<noteq> CStr ZH
     then sl\<lparr>trace := trace sl @ [Insert_cols (c + 1), Cell_write 1 (c + 1) ZH]\<rparr>
     else sl)"
  define rows where "rows = rows_to_tr w1 c"
  define T where "T = length rows"
  define s2 where "s2 = update_task e task_id
       [(''total'', VInt (int T)), (''current'', VInt 0)] s1"
  have rows_eq: "rows = rows_to_tr w0 c"
    by (simp add: rows_def w1_def prepared_rows)
  have ne1: "record_of task_id s1 \<noteq> []" using ne by (simp add: s1_def sl_def)
  then have t2: "map_of (record_of task_id s2) ''total'' = Some (VInt (int T))"
    by (simp add: s2_def map_of_record_update_task)
  show ?thesis
  proof (cases "T = 0")
    case True
    have "s' = update_task e task_id
        [(''status'', DONE), (''percent'', VInt 100), (''message'', VStr MSG_NOTHING)] s2"
      using run ft c0 True
      by (auto simp: try_block_def sl_def [symmetric] Let_def w1_def s1_def rows_def
          T_def s2_def split: if_splits)
    with t2 show ?thesis by (simp add: total_update_task T_def rows_eq)
  next
    case Tpos: False
    define start where "start = clock e (length (trace s2))"
    define out where "out = path_join (ascii ''/tmp'')
        (splitext_root (basename file_path) @ SUFFIX)"
    obtain r3 w3 s3 where fb: "for_batches e task_id c (c + 1) rows T start out
        (range_step T BATCH) w1 s2 = (r3, w3, s3)"
      by (cases "for_batches e task_id c (c + 1) rows T start out (range_step T BATCH) w1 s2")
    from for_batches_total [OF fb] t2
    have t3: "map_of (record_of task_id s3) ''total'' = Some (VInt (int T))" by simp
    note facts = run ft c0 Tpos fb
    note defs = try_block_def sl_def Let_def w1_def s1_def rows_def
          T_def s2_def start_def out_def
    show ?thesis
    proof (cases r3)
      case (Inl x)
      with facts have "s' = s3" by (auto simp: defs split: if_splits)
      with t3 show ?thesis by (simp add: T_def rows_eq)
    next
      case (Inr f)
      show ?thesis
      proof (cases f)
        case Return
        with Inr facts have "s' = s3" by (auto simp: defs split: if_splits)
        with t3 show ?thesis by (simp add: T_def rows_eq)
      next
        case Fallthrough
        with Inr facts have "s' = update_task e task_id
                [(''status'', DONE), (''percent'', VInt 100),
                 (''eta_seconds'', VInt 0),
                 (''message'', VStr (msg_finished T)),
                 (''download_filename'', VStr (basename out)),
                 (''finished_at'', VFloat (clock e (length (trace s3))))] s3"
          by (auto simp: defs split: if_splits)
        with t3 show ?thesis by (simp add: total_update_task T_def rows_eq)
      qed
    qed
  qed
qed

text \<open>The \<open>total\<close> a run stores is the length of the list comprehension of step 3.\<close>

lemma stored_total:
  assumes ft: "find_title (header w0) = Some c"
  shows "map_of (record_of task_id (task_run e file_path filename task_id (Inr (Some w0)) s0))
           ''total'' = Some (VInt (int (length (rows_to_tr w0 c))))"
proof -
  define sa where "sa = start_background_task file_path filename task_id s0"
  define sb where "sb = update_task e task_id
                 [(''status'', RUNNING), (''message'', VStr MSG_READING),
                  (''percent'', VInt 0), (''started_at'', VFloat (clock e (length (trace sa))))] sa"
  have nea: "record_of task_id sa \<noteq> []"
    using hist_ok_start [of task_id s0 file_path filename] by (simp add: hist_ok_def sa_def)
  then have neb: "record_of task_id sb \<noteq> []" by (simp add: sb_def update_task_nonempty)
  obtain r s2 where tb: "try_block e file_path task_id (Inr (Some w0)) sb = (r, s2)"
    by (cases "try_block e file_path task_id (Inr (Some w0)) sb")
  note t2 = try_block_total [OF neb ft tb]
  show ?thesis
  proof (cases r)
    case (Inl x)
    with tb t2 show ?thesis
      by (simp add: task_run_def run_task_def sa_def [symmetric] sb_def [symmetric]
          total_update_task)
  next
    case (Inr f)
    with tb t2 show ?thesis
      by (simp add: task_run_def run_task_def sa_def [symmetric] sb_def [symmetric])
  qed
qed

lemma blank_title: "find_title (header blank_title_row) = Some 1"
  by (simp add: header_def blank_title_row_def ascii_def strip_def isspace_def lower_def upt_rec)

lemma blank_rows: "rows_to_tr blank_title_row (Suc 0) = [2]"
  by (simp add: rows_to_tr_def blank_title_row_def ascii_def strip_def isspace_def upt_rec)

text \<open>
  C2, at a sheet whose row 2 has an empty Title cell: \<open>str(None)\<close> is the text \<open>None\<close>,
  which is not empty, so the row is in \<open>rows_to_tr\<close> and the stored \<open>total\<close> is 1, where the
  claim counts no row.
\<close>

theorem none_title_cell_is_counted:
  "cells blank_title_row 2 1 = CNone \<and>
   str_value (cells blank_title_row 2 1) = ascii ''None'' \<and>
   rows_to_tr blank_title_row 1 = [2] \<and>
   map_of (record_of ''t1'' (task_run (always (Transport_error [])) (ascii ''/tmp/up/in.xlsx'')
      (ascii ''in.xlsx'') ''t1'' (Inr (Some blank_title_row)) empty_world)) ''total'' =
     Some (VInt 1)"
proof -
  have a: "cells blank_title_row 2 1 = CNone" by (simp add: blank_title_row_def)
  then have b: "str_value (cells blank_title_row 2 1) = ascii ''None''" by simp
  have c: "rows_to_tr blank_title_row 1 = [2]" by (simp add: blank_rows)
  have d: "map_of (record_of ''t1'' (task_run (always (Transport_error []))
      (ascii ''/tmp/up/in.xlsx'') (ascii ''in.xlsx'') ''t1'' (Inr (Some blank_title_row))
      empty_world)) ''total'' = Some (VInt 1)"
    using stored_total [OF blank_title, of "''t1''" "always (Transport_error [])"
      "ascii ''/tmp/up/in.xlsx''" "ascii ''in.xlsx''" empty_world]
    by (simp add: blank_rows)
  from a b c d show ?thesis by blast
qed

end
